theory Spec2Isabelle
  imports Main "HOL-Library.Word" "HOL-Library.Sublist"
begin

section \<open>Chunk upload endpoint of keiran.cc\<close>

text \<open>
  The development embeds the route handler \<^verbatim>\<open>src/app/api/upload-chunk/route.ts\<close>
  (function \<^verbatim>\<open>POST\<close>) and the size check of \<^verbatim>\<open>src/components/file-upload.tsx\<close>
  (function \<^verbatim>\<open>onDrop\<close>). The handler calls three library functions of the
  JavaScript runtime, which are modelled after their documented behaviour:
  \<^verbatim>\<open>parseInt\<close> (ECMAScript), \<^verbatim>\<open>path.join\<close> (Node.js, POSIX flavour) and
  \<^verbatim>\<open>fs.promises.mkdir\<close>/\<^verbatim>\<open>fs.promises.writeFile\<close> (Node.js).

  A JavaScript string is modelled as a \<^typ>\<open>string\<close>; one \<^typ>\<open>char\<close> stands for one
  code unit below 256. The bytes of a blob are a list of 8-bit words.
\<close>

type_synonym bytes = "8 word list"

subsection \<open>Form data and JavaScript coercions\<close>

text \<open>
  A \<^verbatim>\<open>FormData\<close> entry value is a string or a file; \<^verbatim>\<open>formData.get(name)\<close>
  returns the first value stored under the name, or \<^verbatim>\<open>null\<close> (here \<open>None\<close>).
\<close>

datatype entry = Str string | Blob bytes

type_synonym formdata = "(string \<times> entry) list"

definition formGet :: "formdata \<Rightarrow> string \<Rightarrow> entry option" where
  "formGet fd k = map_of fd k"

text \<open>Truthiness of \<^verbatim>\<open>x\<close> in \<^verbatim>\<open>!x\<close>: \<^verbatim>\<open>null\<close> and the empty string are falsy,
  every object is truthy.\<close>

fun truthy :: "entry option \<Rightarrow> bool" where
  "truthy None = False"
| "truthy (Some (Str s)) = (s \<noteq> [])"
| "truthy (Some (Blob b)) = True"

text \<open>\<^verbatim>\<open>String(v || '')\<close>: a file object prints as \<^verbatim>\<open>[object File]\<close>.\<close>

fun stringOrEmpty :: "entry option \<Rightarrow> string" where
  "stringOrEmpty None = []"
| "stringOrEmpty (Some (Str s)) = s"
| "stringOrEmpty (Some (Blob b)) = ''[object File]''"

text \<open>\<^verbatim>\<open>Buffer.from(await chunk.arrayBuffer())\<close>: a string has no method
  \<^verbatim>\<open>arrayBuffer\<close>, the call throws a \<^verbatim>\<open>TypeError\<close> (here \<open>None\<close>).\<close>

fun arrayBuffer :: "entry option \<Rightarrow> bytes option" where
  "arrayBuffer (Some (Blob b)) = Some b"
| "arrayBuffer _ = None"

subsection \<open>parseInt\<close>

text \<open>
  \<^verbatim>\<open>parseInt(string)\<close> without a radix: leading white space is skipped, one sign is
  read, a prefix \<^verbatim>\<open>0x\<close>/\<^verbatim>\<open>0X\<close> selects radix 16 (otherwise 10), and the longest run of
  digits of that radix is converted. With no digit the result is \<^verbatim>\<open>NaN\<close> (here
  \<open>None\<close>); everything after the digits is ignored. The result is kept as a mathematical
  integer: the handler only asks whether it is \<^verbatim>\<open>NaN\<close>.
\<close>

definition isWhiteSpace :: "char \<Rightarrow> bool" where
  "isWhiteSpace c = ((of_char c :: nat) \<in> {9, 10, 11, 12, 13, 32, 160})"

definition digitValue :: "char \<Rightarrow> nat option" where
  "digitValue c =
     (let k = (of_char c :: nat) in
      if 48 \<le> k \<and> k \<le> 57 then Some (k - 48)
      else if 97 \<le> k \<and> k \<le> 122 then Some (k - 87)
      else if 65 \<le> k \<and> k \<le> 90 then Some (k - 55)
      else None)"

definition isRadixDigit :: "nat \<Rightarrow> char \<Rightarrow> bool" where
  "isRadixDigit R c = (case digitValue c of None \<Rightarrow> False | Some v \<Rightarrow> v < R)"

definition digitsValue :: "nat \<Rightarrow> string \<Rightarrow> nat" where
  "digitsValue R Z = foldl (\<lambda>a c. a * R + the (digitValue c)) 0 Z"

fun stripSign :: "string \<Rightarrow> int \<times> string" where
  "stripSign [] = (1, [])"
| "stripSign (c # r) =
     (if c = CHR ''-'' then (- 1, r) else if c = CHR ''+'' then (1, r) else (1, c # r))"

fun stripPrefix :: "string \<Rightarrow> nat \<times> string" where
  "stripPrefix (a # b # r) =
     (if a = CHR ''0'' \<and> (b = CHR ''x'' \<or> b = CHR ''X'') then (16, r) else (10, a # b # r))"
| "stripPrefix S = (10, S)"

definition parseInt :: "string \<Rightarrow> int option" where
  "parseInt inputString =
     (let S = dropWhile isWhiteSpace inputString;
          (sign, S1) = stripSign S;
          (R, S2) = stripPrefix S1;
          Z = takeWhile (isRadixDigit R) S2
      in if Z = [] then None else Some (sign * int (digitsValue R Z)))"

subsection \<open>path.join\<close>

text \<open>
  \<^verbatim>\<open>path.join(...args)\<close> glues the non-empty arguments with \<^verbatim>\<open>/\<close> and normalises the
  result: empty and \<^verbatim>\<open>.\<close> segments disappear, a \<^verbatim>\<open>..\<close> segment removes the segment
  before it (at the root of an absolute path it disappears; in a relative path it is
  kept when nothing is left to remove), and a trailing separator survives.
  \<open>normalizeString\<close> works on the stack of segments kept so far, last segment first.
\<close>

fun split_on :: "char \<Rightarrow> string \<Rightarrow> string list" where
  "split_on c [] = [[]]"
| "split_on c (x # xs) =
     (if x = c then [] # split_on c xs
      else (case split_on c xs of [] \<Rightarrow> [[x]] | s # ss \<Rightarrow> (x # s) # ss))"

fun join_with :: "string \<Rightarrow> string list \<Rightarrow> string" where
  "join_with sep [] = []"
| "join_with sep [x] = x"
| "join_with sep (x # y # ys) = x @ sep @ join_with sep (y # ys)"

fun normalizeString :: "bool \<Rightarrow> string list \<Rightarrow> string list \<Rightarrow> string list" where
  "normalizeString allowAboveRoot res [] = res"
| "normalizeString allowAboveRoot res (s # ss) =
     (if s = [] \<or> s = ''.'' then normalizeString allowAboveRoot res ss
      else if s = ''..'' then
        (if res \<noteq> [] \<and> hd res \<noteq> ''..'' then normalizeString allowAboveRoot (tl res) ss
         else if allowAboveRoot then normalizeString allowAboveRoot (''..'' # res) ss
         else normalizeString allowAboveRoot res ss)
      else normalizeString allowAboveRoot (s # res) ss)"

definition normalize :: "string \<Rightarrow> string" where
  "normalize p =
     (if p = [] then ''.''
      else
        let isAbsolute = (hd p = CHR ''/'');
            trailingSeparator = (last p = CHR ''/'');
            q = join_with ''/'' (rev (normalizeString (\<not> isAbsolute) [] (split_on (CHR ''/'') p)))
        in if q = [] then (if isAbsolute then ''/'' else if trailingSeparator then ''./'' else ''.'')
           else (if isAbsolute then ''/'' else []) @ q @ (if trailingSeparator then ''/'' else []))"

definition path_join :: "string list \<Rightarrow> string" where
  "path_join args =
     (let joined = join_with ''/'' (filter (\<lambda>arg. arg \<noteq> []) args)
      in if joined = [] then ''.'' else normalize joined)"

subsection \<open>The process and its file system\<close>

text \<open>
  The state the handler works on: the working directory of the process (the segments
  of an absolute path), the directory tree (a map from the segments of an absolute path
  to the node found there; the root is always a directory) and the log of the
  file-system calls issued so far, in order.
\<close>

datatype node = Dir | File bytes

datatype io_error = ENOENT | ENOTDIR | EISDIR | EEXIST

datatype fs_call = Mkdir string | WriteFile string bytes

record world =
  cwd :: "string list"
  nodes :: "string list \<rightharpoonup> node"
  calls :: "fs_call list"

definition process_cwd :: "world \<Rightarrow> string" where
  "process_cwd w = (if cwd w = [] then ''/'' else concat (map (\<lambda>s. CHR ''/'' # s) (cwd w)))"

text \<open>Path resolution of the operating system: an absolute path is walked from the
  root, a relative one from the working directory.\<close>

definition resolve :: "world \<Rightarrow> string \<Rightarrow> string list" where
  "resolve w p =
     rev (normalizeString False
           (if p \<noteq> [] \<and> hd p = CHR ''/'' then []
            else normalizeString False [] (split_on (CHR ''/'') (process_cwd w)))
           (split_on (CHR ''/'') p))"

definition node_at :: "world \<Rightarrow> string list \<Rightarrow> node option" where
  "node_at w segs = (if segs = [] then Some Dir else nodes w segs)"

text \<open>
  The two calls fail for the reasons the directory tree gives (a file where a
  directory is needed, a directory where a file is written, a missing parent); a full
  disk or missing permissions are not part of the model. The handler only passes
  paths that \<^verbatim>\<open>path.join\<close> has normalised, so resolving \<^verbatim>\<open>..\<close> by text, as \<open>resolve\<close>
  does, agrees with walking the tree.
\<close>

text \<open>\<^verbatim>\<open>fs.mkdir(p, { recursive: true })\<close>: every missing directory on the way is
  created, an existing directory is accepted, a file on the way is an error.\<close>

fun mkdir_walk ::
  "(string list \<rightharpoonup> node) \<Rightarrow> string list \<Rightarrow> string list \<Rightarrow> (string list \<rightharpoonup> node) \<times> io_error option"
where
  "mkdir_walk m pre [] = (m, None)"
| "mkdir_walk m pre (s # ss) =
     (case m (pre @ [s]) of
        None \<Rightarrow> mkdir_walk (m(pre @ [s] \<mapsto> Dir)) (pre @ [s]) ss
      | Some Dir \<Rightarrow> mkdir_walk m (pre @ [s]) ss
      | Some (File b) \<Rightarrow> (m, Some (if ss = [] then EEXIST else ENOTDIR)))"

definition mkdir :: "world \<Rightarrow> string \<Rightarrow> world \<times> io_error option" where
  "mkdir w p =
     (let w' = w\<lparr>calls := calls w @ [Mkdir p]\<rparr> in
      if p = [] then (w', Some ENOENT)
      else let (m, e) = mkdir_walk (nodes w) [] (resolve w p) in (w'\<lparr>nodes := m\<rparr>, e))"

text \<open>\<^verbatim>\<open>fs.writeFile(p, data)\<close>: the file is created or replaced; the directory that
  holds it must exist, and the path must not name a directory.\<close>

definition writeFile :: "world \<Rightarrow> string \<Rightarrow> bytes \<Rightarrow> world \<times> io_error option" where
  "writeFile w p data =
     (let w' = w\<lparr>calls := calls w @ [WriteFile p data]\<rparr>; segs = resolve w p in
      if p = [] then (w', Some ENOENT)
      else if segs = [] then (w', Some EISDIR)
      else case node_at w (butlast segs) of
        None \<Rightarrow> (w', Some ENOENT)
      | Some (File b) \<Rightarrow> (w', Some ENOTDIR)
      | Some Dir \<Rightarrow>
          (case nodes w segs of
             Some Dir \<Rightarrow> (w', Some EISDIR)
           | Some (File b) \<Rightarrow>
               if last p = CHR ''/'' then (w', Some ENOTDIR)
               else (w'\<lparr>nodes := (nodes w)(segs \<mapsto> File data)\<rparr>, None)
           | None \<Rightarrow>
               if last p = CHR ''/'' then (w', Some EISDIR)
               else (w'\<lparr>nodes := (nodes w)(segs \<mapsto> File data)\<rparr>, None)))"

subsection \<open>The handler POST of upload-chunk/route.ts\<close>

text \<open>A response is a plain body with a status, or the JSON object
  \<^verbatim>\<open>{ success, message }\<close>, which \<^verbatim>\<open>NextResponse.json\<close> sends with status 200.\<close>

datatype response = NextResponse string nat | NextResponseJson bool string

fun status :: "response \<Rightarrow> nat" where
  "status (NextResponse body st) = st"
| "status (NextResponseJson success message) = 200"

text \<open>\<^verbatim>\<open>await request.formData()\<close> yields the form, or throws when the body is not
  form data.\<close>

datatype request = NotFormData | FormData formdata

text \<open>The constants \<^verbatim>\<open>uploadDir\<close> and \<^verbatim>\<open>chunkPath\<close> of the handler, as functions of
  the form fields they are computed from, and the response of its \<^verbatim>\<open>catch\<close> branch.\<close>

definition uploadDirOf :: "world \<Rightarrow> string \<Rightarrow> string" where
  "uploadDirOf w filename =
     path_join [process_cwd w, ''public'', ''uploads'', ''chunks'', filename]"

definition chunkPathOf :: "world \<Rightarrow> string \<Rightarrow> string \<Rightarrow> string" where
  "chunkPathOf w filename chunkIndex =
     path_join [uploadDirOf w filename, ''chunk-'' @ chunkIndex]"

definition uploadFailed :: response where
  "uploadFailed = NextResponse ''Chunk upload failed'' 500"

text \<open>The handler. Every exception raised inside \<^verbatim>\<open>try\<close> ends in the \<^verbatim>\<open>catch\<close> branch;
  the world keeps what was done before the exception.\<close>

definition POST :: "world \<Rightarrow> request \<Rightarrow> world \<times> response" where
  "POST w request =
     (case request of
        NotFormData \<Rightarrow> (w, uploadFailed)
      | FormData formData \<Rightarrow>
          let chunk = formGet formData ''file'';
              chunkIndex = stringOrEmpty (formGet formData ''chunkIndex'');
              totalChunks = stringOrEmpty (formGet formData ''totalChunks'');
              filename = stringOrEmpty (formGet formData ''filename'')
          in
          if \<not> truthy chunk \<or> chunkIndex = [] \<or> totalChunks = [] \<or> filename = [] then
            (w, NextResponse ''Missing required form data'' 400)
          else
            case parseInt chunkIndex of
              None \<Rightarrow> (w, NextResponse ''Invalid chunk index'' 400)
            | Some chunkIdx \<Rightarrow>
                let uploadDir = uploadDirOf w filename in
                case mkdir w uploadDir of
                  (w1, Some e) \<Rightarrow> (w1, uploadFailed)
                | (w1, None) \<Rightarrow>
                    let chunkPath = chunkPathOf w filename chunkIndex in
                    case arrayBuffer chunk of
                      None \<Rightarrow> (w1, uploadFailed)
                    | Some buffer \<Rightarrow>
                        case writeFile w1 chunkPath buffer of
                          (w2, Some e) \<Rightarrow> (w2, uploadFailed)
                        | (w2, None) \<Rightarrow>
                            (w2, NextResponseJson True
                                   (''Chunk '' @ chunkIndex @ '' of '' @ totalChunks
                                      @ '' uploaded successfully'')))"

text \<open>A sequence of requests, handled one after the other.\<close>

fun POST_all :: "world \<Rightarrow> request list \<Rightarrow> world \<times> response list" where
  "POST_all w [] = (w, [])"
| "POST_all w (r # rs) =
     (let (w1, resp) = POST w r; (w2, resps) = POST_all w1 rs in (w2, resp # resps))"

subsection \<open>The client's size check (file-upload.tsx)\<close>

record jsfile =
  file_name :: string
  file_size :: nat

text \<open>The component state read by the two callbacks: \<^verbatim>\<open>file\<close> (here
  \<open>selected_file\<close>) and the toasts shown so far.\<close>

record upload_state =
  selected_file :: "jsfile option"
  toasts :: "(string \<times> string) list"

definition MAX_FILE_SIZE :: nat where
  "MAX_FILE_SIZE = 1024 * 1024 * 1024"

text \<open>\<open>onDrop\<close>: reading \<^verbatim>\<open>acceptedFiles[0].size\<close> of an empty list throws (here
  \<open>None\<close>).\<close>

definition onDrop :: "upload_state \<Rightarrow> jsfile list \<Rightarrow> upload_state option" where
  "onDrop st acceptedFiles =
     (case acceptedFiles of
        [] \<Rightarrow> None
      | selectedFile # rest \<Rightarrow>
          if file_size selectedFile > MAX_FILE_SIZE then
            Some (st\<lparr>toasts := toasts st @ [(''File too large'', ''Maximum file size is 1GB.'')]\<rparr>)
          else Some (st\<lparr>selected_file := Some selectedFile\<rparr>))"

text \<open>\<open>handleUpload\<close>: nothing is sent without a selected file; otherwise the
  selected file is sent and the selection is cleared. The second component is the file
  put into the request.\<close>

definition handleUpload :: "upload_state \<Rightarrow> upload_state \<times> jsfile option" where
  "handleUpload st =
     (case selected_file st of
        None \<Rightarrow> (st, None)
      | Some f \<Rightarrow> (st\<lparr>selected_file := None\<rparr>, Some f))"

datatype ui_event = Drop "jsfile list" | Upload

fun ui_run :: "upload_state \<Rightarrow> ui_event list \<Rightarrow> upload_state \<times> jsfile list" where
  "ui_run st [] = (st, [])"
| "ui_run st (Drop fs # es) =
     (case onDrop st fs of None \<Rightarrow> ui_run st es | Some st' \<Rightarrow> ui_run st' es)"
| "ui_run st (Upload # es) =
     (let (st', sent) = handleUpload st; (st'', more) = ui_run st' es
      in (st'', (case sent of None \<Rightarrow> [] | Some f \<Rightarrow> [f]) @ more))"

definition initial_upload_state :: upload_state where
  "initial_upload_state = \<lparr>selected_file = None, toasts = []\<rparr>"

subsection \<open>Requests and worlds used as examples\<close>

text \<open>The request of a client that appends the four fields in the order the handler
  reads them, the chunk as a file.\<close>

definition chunk_upload :: "string \<Rightarrow> string \<Rightarrow> string \<Rightarrow> bytes \<Rightarrow> request" where
  "chunk_upload filename chunkIndex totalChunks payload =
     FormData [(''file'', Blob payload), (''chunkIndex'', Str chunkIndex),
               (''totalChunks'', Str totalChunks), (''filename'', Str filename)]"

text \<open>A process started in \<^verbatim>\<open>/srv\<close> on an empty disk, and one where a regular file
  sits at \<^verbatim>\<open>/srv/public\<close>.\<close>

definition fresh_world :: world where
  "fresh_world = \<lparr>cwd = [''srv''], nodes = Map.empty, calls = []\<rparr>"

definition blocked_world :: world where
  "blocked_world = \<lparr>cwd = [''srv''], nodes = [[''srv'', ''public''] \<mapsto> File []], calls = []\<rparr>"

subsection \<open>Index encoding and assembly, as the specification describes them\<close>

text \<open>Modelled from the spec: the code that produces the \<^verbatim>\<open>chunkIndex\<close> field is
  missing from the source (the client component uploads whole files). The
  specification calls the field a ``non-negative integer, string-encoded'';
  \<open>digit_char\<close> is the character of one decimal digit.\<close>

definition digit_char :: "nat \<Rightarrow> char" where
  "digit_char d = char_of (48 + d)"

text \<open>Modelled from the spec: the string encoding of a chunk index or chunk count,
  missing from the source as said above: the decimal numeral of a natural number
  without leading zeros, as \<^verbatim>\<open>String(i)\<close> prints it.\<close>

fun dec :: "nat \<Rightarrow> string" where
  "dec n = (if n < 10 then [digit_char n] else dec (n div 10) @ [digit_char (n mod 10)])"

declare dec.simps [simp del]

text \<open>Modelled from the spec: \<^verbatim>\<open>ChunkStore.read\<close> is missing from the source (the
  handler only persists chunks). After section 4.1 of the specification it returns the
  bytes stored for an upload identifier and a chunk index, or \<^verbatim>\<open>NotFound\<close> (here
  \<open>None\<close>); the upload identifier is the file name, and the storage key is the path the
  handler writes for that file name and the decimal index.\<close>

definition ChunkStore_read :: "world \<Rightarrow> string \<Rightarrow> nat \<Rightarrow> bytes option" where
  "ChunkStore_read w uploadId chunkIndex =
     (case node_at w (resolve w (chunkPathOf w uploadId (dec chunkIndex))) of
        Some (File b) \<Rightarrow> Some b
      | _ \<Rightarrow> None)"

text \<open>Modelled from the spec: the merge loop of \<^verbatim>\<open>AssemblyCoordinator.assemble\<close>,
  missing from the source. After section 4.3 of the specification the chunks are read
  in the given order and each is appended to the artifact as encountered; a chunk that
  cannot be read is an \<^verbatim>\<open>AssemblyFailure\<close> (here \<open>None\<close>).\<close>

fun read_in_order :: "world \<Rightarrow> string \<Rightarrow> nat list \<Rightarrow> bytes option" where
  "read_in_order w uploadId [] = Some []"
| "read_in_order w uploadId (i # rest) =
     (case ChunkStore_read w uploadId i of
        None \<Rightarrow> None
      | Some b \<Rightarrow>
          (case read_in_order w uploadId rest of
             None \<Rightarrow> None
           | Some artifact \<Rightarrow> Some (b @ artifact)))"

text \<open>Modelled from the spec: \<^verbatim>\<open>AssemblyCoordinator.assemble\<close>, missing from the
  source. After section 4.3 of the specification it reads the chunks
  \<^verbatim>\<open>0..totalChunks-1\<close> in strict order; the result is the bytes of the Final Artifact.
  The session states and the assembly lock of the specification are not part of the
  model.\<close>

definition assemble :: "world \<Rightarrow> string \<Rightarrow> nat \<Rightarrow> bytes option" where
  "assemble w uploadId totalChunks = read_in_order w uploadId [0..<totalChunks]"

subsection \<open>Notions used to state the properties\<close>

text \<open>The segments an absolute path string resolves to, and the segments that
  normalisation keeps as they are.\<close>

definition abs_segments :: "string \<Rightarrow> string list" where
  "abs_segments p = rev (normalizeString False [] (split_on (CHR ''/'') p))"

definition plain :: "string \<Rightarrow> bool" where
  "plain s = (s \<noteq> [] \<and> s \<noteq> ''.'' \<and> s \<noteq> ''..'' \<and> CHR ''/'' \<notin> set s)"

text \<open>The directory all uploads are meant to live under.\<close>

definition chunksRoot :: "world \<Rightarrow> string" where
  "chunksRoot w = path_join [process_cwd w, ''public'', ''uploads'', ''chunks'']"

text \<open>The order in which a sort of strings by code unit puts two names.\<close>

fun sorts_before :: "string \<Rightarrow> string \<Rightarrow> bool" where
  "sorts_before [] [] = False"
| "sorts_before [] (y # ys) = True"
| "sorts_before (x # xs) [] = False"
| "sorts_before (x # xs) (y # ys) =
     ((of_char x :: nat) < of_char y \<or> (x = y \<and> sorts_before xs ys))"

text \<open>The requests of one upload: for each pair of an index and a payload, in the
  order of arrival, the request that carries them for the given file name and chunk
  count.\<close>

definition upload_requests :: "string \<Rightarrow> nat \<Rightarrow> (nat \<times> bytes) list \<Rightarrow> request list" where
  "upload_requests filename totalChunks ups =
     map (\<lambda>(i, b). chunk_upload filename (dec i) (dec totalChunks) b) ups"

text \<open>The payload that was sent last for an index (empty when none was sent).\<close>

definition stored_payload :: "(nat \<times> bytes) list \<Rightarrow> nat \<Rightarrow> bytes" where
  "stored_payload ups i = (case map_of (rev ups) i of None \<Rightarrow> [] | Some b \<Rightarrow> b)"

section \<open>Properties of the handler\<close>

subsection \<open>The branches of POST\<close>

lemmas run_defs =
  formGet_def parseInt_def isWhiteSpace_def isRadixDigit_def digitValue_def digitsValue_def
  uploadDirOf_def chunkPathOf_def path_join_def normalize_def process_cwd_def
  mkdir_def writeFile_def resolve_def node_at_def uploadFailed_def chunk_upload_def
  fresh_world_def blocked_world_def Let_def

lemma POST_missing:
  "\<not> truthy (formGet fd ''file'') \<or> stringOrEmpty (formGet fd ''chunkIndex'') = []
     \<or> stringOrEmpty (formGet fd ''totalChunks'') = []
     \<or> stringOrEmpty (formGet fd ''filename'') = []
   \<Longrightarrow> POST w (FormData fd) = (w, NextResponse ''Missing required form data'' 400)"
  by (auto simp: POST_def Let_def)

lemma POST_invalid:
  "truthy (formGet fd ''file'') \<Longrightarrow> stringOrEmpty (formGet fd ''chunkIndex'') \<noteq> []
   \<Longrightarrow> stringOrEmpty (formGet fd ''totalChunks'') \<noteq> []
   \<Longrightarrow> stringOrEmpty (formGet fd ''filename'') \<noteq> []
   \<Longrightarrow> parseInt (stringOrEmpty (formGet fd ''chunkIndex'')) = None
   \<Longrightarrow> POST w (FormData fd) = (w, NextResponse ''Invalid chunk index'' 400)"
  by (simp add: POST_def Let_def)

lemma POST_storage:
  "truthy (formGet fd ''file'') \<Longrightarrow> stringOrEmpty (formGet fd ''chunkIndex'') \<noteq> []
   \<Longrightarrow> stringOrEmpty (formGet fd ''totalChunks'') \<noteq> []
   \<Longrightarrow> stringOrEmpty (formGet fd ''filename'') \<noteq> []
   \<Longrightarrow> parseInt (stringOrEmpty (formGet fd ''chunkIndex'')) = Some n
   \<Longrightarrow> POST w (FormData fd) =
       (case mkdir w (uploadDirOf w (stringOrEmpty (formGet fd ''filename''))) of
          (w1, Some e) \<Rightarrow> (w1, uploadFailed)
        | (w1, None) \<Rightarrow>
           (case arrayBuffer (formGet fd ''file'') of
              None \<Rightarrow> (w1, uploadFailed)
            | Some buffer \<Rightarrow>
               (case writeFile w1 (chunkPathOf w (stringOrEmpty (formGet fd ''filename''))
                       (stringOrEmpty (formGet fd ''chunkIndex''))) buffer of
                  (w2, Some e) \<Rightarrow> (w2, uploadFailed)
                | (w2, None) \<Rightarrow>
                    (w2, NextResponseJson True
                           (''Chunk '' @ stringOrEmpty (formGet fd ''chunkIndex'') @ '' of ''
                              @ stringOrEmpty (formGet fd ''totalChunks'')
                              @ '' uploaded successfully'')))))"
  by (simp add: POST_def Let_def)

lemma POST_ok_is_json:
  "status (snd (POST w r)) = 200 \<Longrightarrow> \<exists>m. snd (POST w r) = NextResponseJson True m"
  by (auto simp: POST_def Let_def uploadFailed_def
      split: request.splits option.splits prod.splits if_splits)

lemma POST_chunk_upload:
  "filename \<noteq> [] \<Longrightarrow> chunkIndex \<noteq> [] \<Longrightarrow> totalChunks \<noteq> []
   \<Longrightarrow> parseInt chunkIndex = Some n
   \<Longrightarrow> POST w (chunk_upload filename chunkIndex totalChunks payload) =
       (case mkdir w (uploadDirOf w filename) of
          (w1, Some e) \<Rightarrow> (w1, uploadFailed)
        | (w1, None) \<Rightarrow>
           (case writeFile w1 (chunkPathOf w filename chunkIndex) payload of
              (w2, Some e) \<Rightarrow> (w2, uploadFailed)
            | (w2, None) \<Rightarrow>
                (w2, NextResponseJson True
                       (''Chunk '' @ chunkIndex @ '' of '' @ totalChunks
                          @ '' uploaded successfully''))))"
  unfolding chunk_upload_def
  by (subst POST_storage [where n = n]) (simp_all add: formGet_def)

subsection \<open>Splitting and normalising paths\<close>

lemma split_on_nonempty: "split_on c s \<noteq> []"
  by (induction s) (auto split: list.splits)

lemma split_on_no_sep: "c \<notin> set s \<Longrightarrow> split_on c s = [s]"
  by (induction s) auto

lemma split_on_append: "split_on c (a @ c # b) = split_on c a @ split_on c b"
proof (induction a)
  case Nil
  then show ?case by simp
next
  case (Cons x a)
  obtain s ss where s: "split_on c a = s # ss"
    using split_on_nonempty [of c a] by (cases "split_on c a") auto
  with Cons show ?case by simp
qed

lemma split_on_segments: "s \<in> set (split_on c p) \<Longrightarrow> c \<notin> set s"
  by (induction p arbitrary: s) (auto split: list.splits if_splits)

lemma split_join_with:
  "segs \<noteq> [] \<Longrightarrow> \<forall>s \<in> set segs. c \<notin> set s \<Longrightarrow> split_on c (join_with [c] segs) = segs"
proof (induction "[c]" segs rule: join_with.induct)
  case 1
  then show ?case by simp
next
  case (2 x)
  then show ?case by (simp add: split_on_no_sep)
next
  case (3 x y ys)
  then show ?case by (simp add: split_on_append split_on_no_sep)
qed

lemma normalizeString_append:
  "normalizeString a res (xs @ ys) = normalizeString a (normalizeString a res xs) ys"
  by (induction xs arbitrary: res) auto

lemma normalizeString_plain:
  "\<forall>s \<in> set xs. plain s \<Longrightarrow> normalizeString a res xs = rev xs @ res"
  by (induction xs arbitrary: res) (auto simp: plain_def)

lemma normalizeString_keeps_plain:
  "\<forall>s \<in> set res. plain s \<Longrightarrow> \<forall>s \<in> set xs. CHR ''/'' \<notin> set s
   \<Longrightarrow> \<forall>s \<in> set (normalizeString False res xs). plain s"
proof (induction xs arbitrary: res)
  case Nil
  then show ?case by simp
next
  case (Cons x xs)
  have rest: "\<forall>s \<in> set xs. CHR ''/'' \<notin> set s"
    using Cons.prems(2) by simp
  have tl: "\<forall>s \<in> set (tl res). plain s"
    using Cons.prems(1) by (cases res) auto
  show ?case
  proof (cases "x = [] \<or> x = ''.''")
    case True
    then show ?thesis
      using Cons.IH [OF Cons.prems(1) rest] by simp
  next
    case False
    show ?thesis
    proof (cases "x = ''..''")
      case True
      then show ?thesis
        using Cons.IH [OF Cons.prems(1) rest] Cons.IH [OF tl rest] by simp
    next
      case dots: False
      have "plain x"
        using False dots Cons.prems(2) by (simp add: plain_def)
      then have "\<forall>s \<in> set (x # res). plain s"
        using Cons.prems(1) by simp
      from Cons.IH [OF this rest] show ?thesis
        using False dots by simp
    qed
  qed
qed

lemma abs_segments_plain: "\<forall>s \<in> set (abs_segments p). plain s"
  unfolding abs_segments_def
  using normalizeString_keeps_plain [of "[]" "split_on (CHR ''/'') p"] split_on_segments
  by auto

lemma join_with_empty_iff: "\<forall>s \<in> set segs. s \<noteq> [] \<Longrightarrow> join_with sep segs = [] \<longleftrightarrow> segs = []"
  by (induction sep segs rule: join_with.induct) auto


lemma abs_segments_Nil [simp]: "abs_segments [] = []"
  by (simp add: abs_segments_def)

lemma abs_segments_sep:
  "abs_segments (a @ CHR ''/'' # b)
     = rev (normalizeString False (rev (abs_segments a)) (split_on (CHR ''/'') b))"
  by (simp add: abs_segments_def split_on_append normalizeString_append)

lemma abs_segments_render:
  assumes "\<forall>s \<in> set U. plain s" and "U \<noteq> []" and "t = [] \<or> t = ''/''"
  shows "abs_segments (CHR ''/'' # join_with ''/'' U @ t) = U"
proof -
  have nosep: "\<forall>s \<in> set U. CHR ''/'' \<notin> set s"
    using assms(1) by (simp add: plain_def)
  have sp: "split_on (CHR ''/'') (join_with ''/'' U) = U"
    using split_join_with [OF assms(2) nosep] by simp
  have "split_on (CHR ''/'') (join_with ''/'' U @ t) = U \<or>
        split_on (CHR ''/'') (join_with ''/'' U @ t) = U @ [[]]"
    using assms(3) sp split_on_append [of "CHR ''/''" "join_with ''/'' U" "[]"] by auto
  then have "normalizeString False [] (split_on (CHR ''/'') (join_with ''/'' U @ t)) = rev U"
    using assms(1) by (auto simp: normalizeString_append normalizeString_plain)
  then show ?thesis
    using abs_segments_sep [of "[]" "join_with ''/'' U @ t"] by simp
qed

lemma normalize_absolute:
  assumes "p \<noteq> []" and "hd p = CHR ''/''"
  shows "normalize p =
           (if abs_segments p = [] then ''/''
            else CHR ''/'' # join_with ''/'' (abs_segments p)
                   @ (if last p = CHR ''/'' then ''/'' else []))"
proof -
  have "\<forall>s \<in> set (abs_segments p). s \<noteq> []"
    using abs_segments_plain [of p] by (auto simp: plain_def)
  then have "join_with ''/'' (abs_segments p) = [] \<longleftrightarrow> abs_segments p = []"
    by (rule join_with_empty_iff)
  then show ?thesis
    using assms by (simp add: normalize_def abs_segments_def Let_def)
qed

lemma abs_segments_normalize:
  assumes "p \<noteq> []" and "hd p = CHR ''/''"
  shows "abs_segments (normalize p) = abs_segments p"
proof (cases "abs_segments p = []")
  case True
  then have "normalize p = ''/''"
    using normalize_absolute [OF assms] by simp
  then show ?thesis
    using True by (simp add: abs_segments_def)
next
  case False
  then show ?thesis
    using normalize_absolute [OF assms] abs_segments_plain [of p]
      abs_segments_render [of "abs_segments p" "if last p = CHR ''/'' then ''/'' else []"]
    by simp
qed

lemma normalize_is_absolute:
  assumes "p \<noteq> []" and "hd p = CHR ''/''"
  shows "normalize p \<noteq> [] \<and> hd (normalize p) = CHR ''/''"
  using normalize_absolute [OF assms] by simp

lemma process_cwd_absolute: "process_cwd w \<noteq> [] \<and> hd (process_cwd w) = CHR ''/''"
  by (cases "cwd w") (simp_all add: process_cwd_def)

lemma resolve_absolute: "p \<noteq> [] \<Longrightarrow> hd p = CHR ''/'' \<Longrightarrow> resolve w p = abs_segments p"
  by (simp add: resolve_def abs_segments_def)

lemma uploadDirOf_eq:
  "filename \<noteq> [] \<Longrightarrow>
   uploadDirOf w filename = normalize (process_cwd w @ ''/public/uploads/chunks/'' @ filename)"
  using process_cwd_absolute [of w] by (simp add: uploadDirOf_def path_join_def)

lemma uploadDirOf_absolute:
  "filename \<noteq> [] \<Longrightarrow> uploadDirOf w filename \<noteq> [] \<and> hd (uploadDirOf w filename) = CHR ''/''"
  using process_cwd_absolute [of w]
  by (simp add: uploadDirOf_eq normalize_is_absolute)

lemma chunkPathOf_eq:
  "filename \<noteq> [] \<Longrightarrow>
   chunkPathOf w filename chunkIndex
     = normalize (uploadDirOf w filename @ ''/'' @ ''chunk-'' @ chunkIndex)"
  using uploadDirOf_absolute [of filename w] by (simp add: chunkPathOf_def path_join_def)

lemma chunkPathOf_absolute:
  "filename \<noteq> [] \<Longrightarrow>
   chunkPathOf w filename chunkIndex \<noteq> [] \<and> hd (chunkPathOf w filename chunkIndex) = CHR ''/''"
  using uploadDirOf_absolute [of filename w]
  by (simp add: chunkPathOf_eq normalize_is_absolute)

lemma abs_segments_chunkPathOf:
  assumes "filename \<noteq> []"
  shows "abs_segments (chunkPathOf w filename chunkIndex)
     = rev (normalizeString False (rev (abs_segments (uploadDirOf w filename)))
              (split_on (CHR ''/'') (''chunk-'' @ chunkIndex)))"
proof -
  have "abs_segments (chunkPathOf w filename chunkIndex)
      = abs_segments (uploadDirOf w filename @ ''/'' @ ''chunk-'' @ chunkIndex)"
    using uploadDirOf_absolute [OF assms, of w]
    by (simp add: chunkPathOf_eq [OF assms] abs_segments_normalize)
  also have "\<dots> = rev (normalizeString False (rev (abs_segments (uploadDirOf w filename)))
              (split_on (CHR ''/'') (''chunk-'' @ chunkIndex)))"
    using abs_segments_sep [of "uploadDirOf w filename" "''chunk-'' @ chunkIndex"] by simp
  finally show ?thesis .
qed

lemma plain_chunk_name: "CHR ''/'' \<notin> set chunkIndex \<Longrightarrow> plain (''chunk-'' @ chunkIndex)"
  by (simp add: plain_def)

lemma abs_segments_chunkPathOf_plain:
  assumes "filename \<noteq> []" and "CHR ''/'' \<notin> set chunkIndex"
  shows "abs_segments (chunkPathOf w filename chunkIndex)
           = abs_segments (uploadDirOf w filename) @ [''chunk-'' @ chunkIndex]"
proof -
  have "split_on (CHR ''/'') (''chunk-'' @ chunkIndex) = [''chunk-'' @ chunkIndex]"
    using assms(2) by (intro split_on_no_sep) simp
  then show ?thesis
    using abs_segments_chunkPathOf [OF assms(1), of w chunkIndex]
      normalizeString_plain [of "[''chunk-'' @ chunkIndex]" False]
      plain_chunk_name [OF assms(2)]
    by simp
qed

lemma abs_segments_uploadDirOf:
  assumes "filename \<noteq> []"
  shows "abs_segments (uploadDirOf w filename)
     = rev (normalizeString False
              ([''chunks'', ''uploads'', ''public''] @ rev (abs_segments (process_cwd w)))
              (split_on (CHR ''/'') filename))"
proof -
  have abs: "process_cwd w @ ''/public/uploads/chunks/'' @ filename \<noteq> []
      \<and> hd (process_cwd w @ ''/public/uploads/chunks/'' @ filename) = CHR ''/''"
    using process_cwd_absolute [of w] by simp
  have "abs_segments (process_cwd w @ ''/public/uploads/chunks'')
      = abs_segments (process_cwd w) @ [''public'', ''uploads'', ''chunks'']"
    using abs_segments_sep [of "process_cwd w" "''public/uploads/chunks''"]
    by (simp add: normalizeString_plain plain_def)
  then show ?thesis
    using abs_segments_sep [of "process_cwd w @ ''/public/uploads/chunks''" filename] abs
    by (simp add: uploadDirOf_eq [OF assms] abs_segments_normalize)
qed

subsection \<open>Effects of mkdir, writeFile and an accepted request\<close>

lemma mkdir_walk_entry:
  "fst (mkdir_walk m pre ss) p = m p \<or> (m p = None \<and> fst (mkdir_walk m pre ss) p = Some Dir)"
proof (induction ss arbitrary: m pre)
  case Nil
  then show ?case by simp
next
  case (Cons s ss)
  show ?case
  proof (cases "m (pre @ [s])")
    case None
    define m1 where "m1 = m(pre @ [s] \<mapsto> Dir)"
    have eq: "mkdir_walk m pre (s # ss) = mkdir_walk m1 (pre @ [s]) ss"
      using None by (simp add: m1_def)
    have at: "m1 (pre @ [s]) = Some Dir" and other: "p \<noteq> pre @ [s] \<Longrightarrow> m1 p = m p"
      by (simp_all add: m1_def)
    have ih: "fst (mkdir_walk m1 (pre @ [s]) ss) p = m1 p
        \<or> (m1 p = None \<and> fst (mkdir_walk m1 (pre @ [s]) ss) p = Some Dir)"
      by (rule Cons.IH)
    show ?thesis
    proof (cases "p = pre @ [s]")
      case True
      with ih at have "fst (mkdir_walk m1 (pre @ [s]) ss) p = Some Dir"
        by auto
      with None True show ?thesis
        unfolding eq by simp
    next
      case False
      with ih other show ?thesis
        unfolding eq by simp
    qed
  next
    case (Some nd)
    show ?thesis
    proof (cases nd)
      case Dir
      then have "mkdir_walk m pre (s # ss) = mkdir_walk m (pre @ [s]) ss"
        using Some by simp
      then show ?thesis
        using Cons.IH [of m "pre @ [s]"] by simp
    next
      case (File b)
      then show ?thesis using Some by simp
    qed
  qed
qed

lemma mkdir_walk_keeps:
  "m p = Some v \<Longrightarrow> fst (mkdir_walk m pre ss) p = Some v"
  using mkdir_walk_entry [of m pre ss p] by auto

lemma mkdir_walk_step:
  assumes "mkdir_walk m pre (s # ss) = (m', None)"
  obtains m1 where "mkdir_walk m1 (pre @ [s]) ss = (m', None)" and "m1 (pre @ [s]) = Some Dir"
proof (cases "m (pre @ [s])")
  case None
  then have "mkdir_walk (m(pre @ [s] \<mapsto> Dir)) (pre @ [s]) ss = (m', None)"
    using assms by simp
  then show ?thesis
    using that [of "m(pre @ [s] \<mapsto> Dir)"] by simp
next
  case (Some nd)
  show ?thesis
  proof (cases nd)
    case Dir
    then have "mkdir_walk m (pre @ [s]) ss = (m', None)"
      using assms Some by simp
    then show ?thesis
      using that [of m] Some Dir by simp
  next
    case (File b)
    then show ?thesis
      using assms Some by simp
  qed
qed

lemma mkdir_walk_dirs:
  "mkdir_walk m pre ss = (m', None) \<Longrightarrow> 0 < k \<Longrightarrow> k \<le> length ss
   \<Longrightarrow> m' (pre @ take k ss) = Some Dir"
proof (induction ss arbitrary: m pre k)
  case Nil
  then show ?case by simp
next
  case (Cons s ss)
  from Cons.prems(1) obtain m1 where
    m1: "mkdir_walk m1 (pre @ [s]) ss = (m', None)" and here: "m1 (pre @ [s]) = Some Dir"
    by (rule mkdir_walk_step)
  from Cons.prems(2) obtain j where k: "k = Suc j"
    by (cases k) auto
  show ?case
  proof (cases j)
    case 0
    have "fst (mkdir_walk m1 (pre @ [s]) ss) (pre @ [s]) = Some Dir"
      using here by (rule mkdir_walk_keeps)
    then show ?thesis
      using m1 k 0 by simp
  next
    case (Suc i)
    have "m' ((pre @ [s]) @ take j ss) = Some Dir"
    proof (rule Cons.IH [OF m1])
      show "0 < j" using Suc by simp
      show "j \<le> length ss" using Cons.prems(3) k by simp
    qed
    then show ?thesis
      using k by simp
  qed
qed

lemma mkdir_walk_noop:
  "(\<And>k. 0 < k \<Longrightarrow> k \<le> length ss \<Longrightarrow> m (pre @ take k ss) = Some Dir)
   \<Longrightarrow> mkdir_walk m pre ss = (m, None)"
proof (induction ss arbitrary: pre)
  case Nil
  then show ?case by simp
next
  case (Cons s ss)
  have here: "m (pre @ [s]) = Some Dir"
    using Cons.prems [of 1] by simp
  have "mkdir_walk m (pre @ [s]) ss = (m, None)"
  proof (rule Cons.IH)
    fix k assume "0 < k" "k \<le> length ss"
    then show "m ((pre @ [s]) @ take k ss) = Some Dir"
      using Cons.prems [of "Suc k"] by simp
  qed
  with here show ?case by simp
qed

lemma resolve_cwd: "cwd w' = cwd w \<Longrightarrow> resolve w' p = resolve w p"
  by (simp add: resolve_def process_cwd_def)

lemma uploadDirOf_cwd: "cwd w' = cwd w \<Longrightarrow> uploadDirOf w' f = uploadDirOf w f"
  by (simp add: uploadDirOf_def process_cwd_def)

lemma chunkPathOf_cwd: "cwd w' = cwd w \<Longrightarrow> chunkPathOf w' f i = chunkPathOf w f i"
  using uploadDirOf_cwd [of w' w f] by (simp add: chunkPathOf_def)

lemma mkdir_eq:
  assumes "p \<noteq> []"
  shows "mkdir w p = (w\<lparr>calls := calls w @ [Mkdir p],
                        nodes := fst (mkdir_walk (nodes w) [] (resolve w p))\<rparr>,
                      snd (mkdir_walk (nodes w) [] (resolve w p)))"
  using assms by (simp add: mkdir_def Let_def case_prod_beta)

lemma mkdir_world:
  assumes "mkdir w p = (w1, e)"
  shows "cwd w1 = cwd w \<and> calls w1 = calls w @ [Mkdir p]"
proof (cases "p = []")
  case True
  with assms show ?thesis by (auto simp: mkdir_def Let_def)
next
  case False
  from assms show ?thesis unfolding mkdir_eq [OF False] by auto
qed

lemma mkdir_nodes:
  assumes "mkdir w p = (w1, e)" and "p \<noteq> []"
  shows "mkdir_walk (nodes w) [] (resolve w p) = (nodes w1, e)"
  using assms(1) unfolding mkdir_eq [OF assms(2)] by auto


lemma writeFile_ok:
  assumes "writeFile w p d = (w', None)"
  shows "w' = w\<lparr>calls := calls w @ [WriteFile p d], nodes := (nodes w)(resolve w p \<mapsto> File d)\<rparr>
         \<and> p \<noteq> [] \<and> last p \<noteq> CHR ''/''
         \<and> resolve w p \<noteq> [] \<and> nodes w (resolve w p) \<noteq> Some Dir
         \<and> node_at w (butlast (resolve w p)) = Some Dir"
proof (cases "node_at w (butlast (resolve w p))")
  case None
  with assms show ?thesis by (simp add: writeFile_def Let_def split: if_splits)
next
  case (Some nd)
  show ?thesis
  proof (cases nd)
    case Dir
    show ?thesis
    proof (cases "nodes w (resolve w p)")
      case None
      with assms Some Dir show ?thesis
        by (simp add: writeFile_def Let_def split: if_splits)
    next
      case inner: (Some nd2)
      with assms Some Dir show ?thesis
        by (cases nd2) (simp_all add: writeFile_def Let_def split: if_splits)
    qed
  next
    case (File b)
    with assms Some show ?thesis by (simp add: writeFile_def Let_def split: if_splits)
  qed
qed

lemma writeFile_succeeds:
  assumes "p \<noteq> []" "last p \<noteq> CHR ''/''" "resolve w p \<noteq> []"
    "nodes w (resolve w p) \<noteq> Some Dir" "node_at w (butlast (resolve w p)) = Some Dir"
  shows "writeFile w p d = (w\<lparr>calls := calls w @ [WriteFile p d],
               nodes := (nodes w)(resolve w p \<mapsto> File d)\<rparr>, None)"
proof (cases "nodes w (resolve w p)")
  case None
  with assms show ?thesis by (simp add: writeFile_def Let_def)
next
  case (Some nd)
  with assms show ?thesis by (cases nd) (simp_all add: writeFile_def Let_def)
qed

lemma writeFile_world:
  "cwd (fst (writeFile w p d)) = cwd w
   \<and> calls (fst (writeFile w p d)) = calls w @ [WriteFile p d]"
proof (cases "node_at w (butlast (resolve w p))")
  case None
  then show ?thesis by (simp add: writeFile_def Let_def)
next
  case (Some nd)
  show ?thesis
  proof (cases nd)
    case Dir
    show ?thesis
    proof (cases "nodes w (resolve w p)")
      case None
      with Some Dir show ?thesis by (simp add: writeFile_def Let_def)
    next
      case inner: (Some nd2)
      with Some Dir show ?thesis by (cases nd2) (simp_all add: writeFile_def Let_def)
    qed
  next
    case (File b)
    with Some show ?thesis by (simp add: writeFile_def Let_def)
  qed
qed

lemma writeFile_failed:
  assumes "snd (writeFile w p d) \<noteq> None"
  shows "nodes (fst (writeFile w p d)) = nodes w"
proof (cases "node_at w (butlast (resolve w p))")
  case None
  then show ?thesis by (simp add: writeFile_def Let_def)
next
  case (Some nd)
  show ?thesis
  proof (cases nd)
    case Dir
    show ?thesis
    proof (cases "nodes w (resolve w p)")
      case None
      with assms Some Dir show ?thesis by (simp add: writeFile_def Let_def split: if_splits)
    next
      case inner: (Some nd2)
      with assms Some Dir show ?thesis
        by (cases nd2) (simp_all add: writeFile_def Let_def split: if_splits)
    qed
  next
    case (File b)
    with Some show ?thesis by (simp add: writeFile_def Let_def)
  qed
qed

lemma POST_accepted:
  assumes "status (snd (POST w (chunk_upload f idx t b))) = 200"
  shows "f \<noteq> [] \<and> idx \<noteq> [] \<and> t \<noteq> [] \<and> parseInt idx \<noteq> None
     \<and> snd (mkdir w (uploadDirOf w f)) = None
     \<and> snd (writeFile (fst (mkdir w (uploadDirOf w f))) (chunkPathOf w f idx) b) = None
     \<and> POST w (chunk_upload f idx t b)
         = (fst (writeFile (fst (mkdir w (uploadDirOf w f))) (chunkPathOf w f idx) b),
            NextResponseJson True (''Chunk '' @ idx @ '' of '' @ t @ '' uploaded successfully''))"
proof -
  have present: "f \<noteq> [] \<and> idx \<noteq> [] \<and> t \<noteq> []"
  proof (rule ccontr)
    assume "\<not> (f \<noteq> [] \<and> idx \<noteq> [] \<and> t \<noteq> [])"
    then have "POST w (chunk_upload f idx t b)
        = (w, NextResponse ''Missing required form data'' 400)"
      unfolding chunk_upload_def by (intro POST_missing) (auto simp: formGet_def)
    with assms show False by simp
  qed
  have parsed: "parseInt idx \<noteq> None"
  proof
    assume "parseInt idx = None"
    then have "POST w (chunk_upload f idx t b) = (w, NextResponse ''Invalid chunk index'' 400)"
      using present unfolding chunk_upload_def
      by (intro POST_invalid) (auto simp: formGet_def)
    with assms show False by simp
  qed
  then obtain n where n: "parseInt idx = Some n" by auto
  obtain w1 e1 where m: "mkdir w (uploadDirOf w f) = (w1, e1)"
    by (cases "mkdir w (uploadDirOf w f)")
  obtain w2 e2 where wr: "writeFile w1 (chunkPathOf w f idx) b = (w2, e2)"
    by (cases "writeFile w1 (chunkPathOf w f idx) b")
  have eq: "POST w (chunk_upload f idx t b) =
       (case e1 of Some e \<Rightarrow> (w1, uploadFailed)
        | None \<Rightarrow> (case e2 of Some e \<Rightarrow> (w2, uploadFailed)
            | None \<Rightarrow> (w2, NextResponseJson True
                       (''Chunk '' @ idx @ '' of '' @ t @ '' uploaded successfully''))))"
    using present n m wr by (simp add: POST_chunk_upload split: option.splits)
  have e1: "e1 = None"
    using assms eq by (cases e1) (simp_all add: uploadFailed_def)
  have e2: "e2 = None"
    using assms eq e1 by (cases e2) (simp_all add: uploadFailed_def)
  show ?thesis
    using present parsed m wr eq e1 e2 by simp
qed

lemma POST_accepted_world:
  assumes "status (snd (POST w (chunk_upload f idx t b))) = 200"
  shows "cwd (fst (POST w (chunk_upload f idx t b))) = cwd w
     \<and> calls (fst (POST w (chunk_upload f idx t b)))
         = calls w @ [Mkdir (uploadDirOf w f), WriteFile (chunkPathOf w f idx) b]
     \<and> snd (mkdir_walk (nodes w) [] (abs_segments (uploadDirOf w f))) = None
     \<and> abs_segments (chunkPathOf w f idx) \<noteq> []
     \<and> last (chunkPathOf w f idx) \<noteq> CHR ''/''
     \<and> fst (mkdir_walk (nodes w) [] (abs_segments (uploadDirOf w f)))
           (abs_segments (chunkPathOf w f idx)) \<noteq> Some Dir
     \<and> nodes (fst (POST w (chunk_upload f idx t b)))
         = (fst (mkdir_walk (nodes w) [] (abs_segments (uploadDirOf w f))))
             (abs_segments (chunkPathOf w f idx) \<mapsto> File b)"
proof -
  note acc = POST_accepted [OF assms]
  from acc have f: "f \<noteq> []" by simp
  obtain w1 where m: "mkdir w (uploadDirOf w f) = (w1, None)"
    using acc by (cases "mkdir w (uploadDirOf w f)") auto
  obtain w2 where wr: "writeFile w1 (chunkPathOf w f idx) b = (w2, None)"
    using acc m by (cases "writeFile w1 (chunkPathOf w f idx) b") auto
  have post: "fst (POST w (chunk_upload f idx t b)) = w2"
    using acc m wr by simp
  have up: "uploadDirOf w f \<noteq> []" and upabs: "resolve w (uploadDirOf w f) = abs_segments (uploadDirOf w f)"
    using uploadDirOf_absolute [OF f, of w] by (simp_all add: resolve_absolute)
  have w1: "cwd w1 = cwd w" "calls w1 = calls w @ [Mkdir (uploadDirOf w f)]"
    using mkdir_world [OF m] by simp_all
  have walk: "mkdir_walk (nodes w) [] (abs_segments (uploadDirOf w f)) = (nodes w1, None)"
    using mkdir_nodes [OF m up] upabs by simp
  have cp: "resolve w1 (chunkPathOf w f idx) = abs_segments (chunkPathOf w f idx)"
    using chunkPathOf_absolute [OF f, of w idx] by (simp add: resolve_absolute)
  note ok = writeFile_ok [OF wr]
  have w2: "cwd w2 = cwd w1" "calls w2 = calls w1 @ [WriteFile (chunkPathOf w f idx) b]"
    using writeFile_world [of w1 "chunkPathOf w f idx" b] wr by simp_all
  show ?thesis
    using post w1 w2 walk ok cp by simp
qed

subsection \<open>Requests that differ in payload or totalChunks; the client's selection\<close>

lemma writeFile_error_any_data: "snd (writeFile w p d) = snd (writeFile w p d')"
proof (cases "node_at w (butlast (resolve w p))")
  case None
  then show ?thesis by (simp add: writeFile_def Let_def)
next
  case (Some nd)
  show ?thesis
  proof (cases nd)
    case Dir
    show ?thesis
    proof (cases "nodes w (resolve w p)")
      case None
      with Some Dir show ?thesis by (simp add: writeFile_def Let_def)
    next
      case inner: (Some nd2)
      with Some Dir show ?thesis by (cases nd2) (simp_all add: writeFile_def Let_def)
    qed
  next
    case (File b)
    with Some show ?thesis by (simp add: writeFile_def Let_def)
  qed
qed

lemma POST_chunk_upload_fst_status:
  assumes "f \<noteq> []" "idx \<noteq> []" "t \<noteq> []" "parseInt idx \<noteq> None"
  shows "fst (POST w (chunk_upload f idx t b))
           = (if snd (mkdir w (uploadDirOf w f)) = None
              then fst (writeFile (fst (mkdir w (uploadDirOf w f))) (chunkPathOf w f idx) b)
              else fst (mkdir w (uploadDirOf w f)))
       \<and> status (snd (POST w (chunk_upload f idx t b)))
           = (if snd (mkdir w (uploadDirOf w f)) = None
                \<and> snd (writeFile (fst (mkdir w (uploadDirOf w f))) (chunkPathOf w f idx) b) = None
              then 200 else 500)"
proof -
  from assms(4) obtain n where n: "parseInt idx = Some n" by auto
  show ?thesis
    by (simp add: POST_chunk_upload [OF assms(1-3) n] uploadFailed_def
          split: prod.splits option.splits)
qed

lemma POST_chunk_upload_rejected:
  assumes "f = [] \<or> idx = [] \<or> t = [] \<or> parseInt idx = None"
  shows "fst (POST w (chunk_upload f idx t b)) = w \<and> status (snd (POST w (chunk_upload f idx t b))) = 400"
proof (cases "f = [] \<or> idx = [] \<or> t = []")
  case True
  then have "POST w (chunk_upload f idx t b) = (w, NextResponse ''Missing required form data'' 400)"
    unfolding chunk_upload_def by (intro POST_missing) (auto simp: formGet_def)
  then show ?thesis by simp
next
  case False
  with assms have "POST w (chunk_upload f idx t b) = (w, NextResponse ''Invalid chunk index'' 400)"
    unfolding chunk_upload_def by (intro POST_invalid) (auto simp: formGet_def)
  then show ?thesis by simp
qed

lemma onDrop_keeps_bound:
  assumes "\<And>f. selected_file st = Some f \<Longrightarrow> file_size f \<le> MAX_FILE_SIZE"
    and "onDrop st fs = Some st'" and "selected_file st' = Some g"
  shows "file_size g \<le> MAX_FILE_SIZE"
  using assms by (auto simp: onDrop_def split: list.splits if_splits)

lemma handleUpload_cases:
  "handleUpload st = (st, None) \<and> selected_file st = None
   \<or> (\<exists>f. selected_file st = Some f \<and> handleUpload st = (st\<lparr>selected_file := None\<rparr>, Some f))"
  by (cases "selected_file st") (simp_all add: handleUpload_def)

lemma ui_run_Upload:
  "snd (ui_run st (Upload # es))
     = (case snd (handleUpload st) of None \<Rightarrow> [] | Some f \<Rightarrow> [f])
         @ snd (ui_run (fst (handleUpload st)) es)"
  by (simp add: case_prod_beta)

lemma ui_run_sent_bounded:
  "(\<And>f. selected_file st = Some f \<Longrightarrow> file_size f \<le> MAX_FILE_SIZE)
   \<Longrightarrow> g \<in> set (snd (ui_run st es)) \<Longrightarrow> file_size g \<le> MAX_FILE_SIZE"
proof (induction es arbitrary: st)
  case Nil
  then show ?case by simp
next
  case (Cons e es)
  show ?case
  proof (cases e)
    case (Drop fs)
    show ?thesis
    proof (cases "onDrop st fs")
      case None
      then have "g \<in> set (snd (ui_run st es))"
        using Cons.prems(2) Drop by simp
      with Cons.IH [OF Cons.prems(1)] show ?thesis by blast
    next
      case (Some st')
      have "\<And>f. selected_file st' = Some f \<Longrightarrow> file_size f \<le> MAX_FILE_SIZE"
        using onDrop_keeps_bound [OF Cons.prems(1) Some] by blast
      from Cons.IH [OF this] Cons.prems(2) Drop Some show ?thesis by simp
    qed
  next
    case Upload
    from handleUpload_cases [of st] show ?thesis
    proof (elim disjE conjE exE)
      assume h: "handleUpload st = (st, None)"
      from Cons.IH [of st] Cons.prems Upload h show ?thesis
        by (simp add: ui_run_Upload del: ui_run.simps)
    next
      fix f assume sel: "selected_file st = Some f"
        and h: "handleUpload st = (st\<lparr>selected_file := None\<rparr>, Some f)"
      have f: "file_size f \<le> MAX_FILE_SIZE"
        using Cons.prems(1) sel by simp
      have "g = f \<or> g \<in> set (snd (ui_run (st\<lparr>selected_file := None\<rparr>) es))"
        using Cons.prems(2) Upload h by (simp add: ui_run_Upload del: ui_run.simps)
      then show ?thesis
      proof
        assume "g = f" with f show ?thesis by simp
      next
        assume "g \<in> set (snd (ui_run (st\<lparr>selected_file := None\<rparr>) es))"
        then show ?thesis
          by (rule Cons.IH [rotated]) simp
      qed
    qed
  qed
qed

subsection \<open>Uploads into the fresh world, step by step\<close>

lemma fresh_upload_world:
  "fst (POST fresh_world (chunk_upload ''a.bin'' ''0'' ''2'' b0)) =
     \<lparr>cwd = [''srv''],
      nodes = [[''srv''] \<mapsto> Dir, [''srv'', ''public''] \<mapsto> Dir,
               [''srv'', ''public'', ''uploads''] \<mapsto> Dir,
               [''srv'', ''public'', ''uploads'', ''chunks''] \<mapsto> Dir,
               [''srv'', ''public'', ''uploads'', ''chunks'', ''a.bin''] \<mapsto> Dir,
               [''srv'', ''public'', ''uploads'', ''chunks'', ''a.bin'', ''chunk-0''] \<mapsto> File b0],
      calls = [Mkdir ''/srv/public/uploads/chunks/a.bin'',
               WriteFile ''/srv/public/uploads/chunks/a.bin/chunk-0'' b0]\<rparr>"
  by (simp add: POST_def run_defs)

lemma two_chunks_accepted:
  "snd (POST_all fresh_world [chunk_upload ''a.bin'' ''0'' ''2'' b0,
                              chunk_upload ''a.bin'' ''1'' ''2'' b1])
     = [NextResponseJson True ''Chunk 0 of 2 uploaded successfully'',
        NextResponseJson True ''Chunk 1 of 2 uploaded successfully'']"
proof -
  have 1: "snd (POST fresh_world (chunk_upload ''a.bin'' ''0'' ''2'' b0))
     = NextResponseJson True ''Chunk 0 of 2 uploaded successfully''"
    by (simp add: POST_def run_defs)
  have 2: "snd (POST (fst (POST fresh_world (chunk_upload ''a.bin'' ''0'' ''2'' b0)))
                  (chunk_upload ''a.bin'' ''1'' ''2'' b1))
     = NextResponseJson True ''Chunk 1 of 2 uploaded successfully''"
    unfolding fresh_upload_world by (simp add: POST_def run_defs)
  show ?thesis
    using 1 2 by (simp add: case_prod_beta)
qed

subsection \<open>What an accepted request leaves on disk\<close>

lemma POST_accepted_parent:
  assumes "status (snd (POST w (chunk_upload f idx t b))) = 200"
  shows "butlast (abs_segments (chunkPathOf w f idx)) = []
     \<or> fst (mkdir_walk (nodes w) [] (abs_segments (uploadDirOf w f)))
          (butlast (abs_segments (chunkPathOf w f idx))) = Some Dir"
proof -
  note acc = POST_accepted [OF assms]
  from acc have f: "f \<noteq> []" by simp
  obtain w1 where m: "mkdir w (uploadDirOf w f) = (w1, None)"
    using acc by (cases "mkdir w (uploadDirOf w f)") auto
  obtain w2 where wr: "writeFile w1 (chunkPathOf w f idx) b = (w2, None)"
    using acc m by (cases "writeFile w1 (chunkPathOf w f idx) b") auto
  have up: "uploadDirOf w f \<noteq> []"
    and upabs: "resolve w (uploadDirOf w f) = abs_segments (uploadDirOf w f)"
    using uploadDirOf_absolute [OF f, of w] by (simp_all add: resolve_absolute)
  have walk: "mkdir_walk (nodes w) [] (abs_segments (uploadDirOf w f)) = (nodes w1, None)"
    using mkdir_nodes [OF m up] upabs by simp
  have cp: "resolve w1 (chunkPathOf w f idx) = abs_segments (chunkPathOf w f idx)"
    using chunkPathOf_absolute [OF f, of w idx] by (simp add: resolve_absolute)
  from writeFile_ok [OF wr] have "node_at w1 (butlast (abs_segments (chunkPathOf w f idx))) = Some Dir"
    using cp by simp
  then show ?thesis
    using walk by (auto simp: node_at_def split: if_splits)
qed

lemma POST_accepted_written:
  assumes "status (snd (POST w (chunk_upload f idx t b))) = 200"
  shows "nodes (fst (POST w (chunk_upload f idx t b))) (abs_segments (chunkPathOf w f idx))
           = Some (File b)"
  using POST_accepted_world [OF assms] by simp

lemma POST_accepted_frame:
  assumes "status (snd (POST w (chunk_upload f idx t b))) = 200"
    and "nodes w p = Some v" and "p \<noteq> abs_segments (chunkPathOf w f idx)"
  shows "nodes (fst (POST w (chunk_upload f idx t b))) p = Some v"
  using POST_accepted_world [OF assms(1)] assms(3)
    mkdir_walk_keeps [of "nodes w" p v "[]" "abs_segments (uploadDirOf w f)"] assms(2)
  by simp

lemma POST_rewrite:
  assumes acc: "status (snd (POST w (chunk_upload f idx t1 b1))) = 200" and t2: "t2 \<noteq> []"
  shows "status (snd (POST (fst (POST w (chunk_upload f idx t1 b1))) (chunk_upload f idx t2 b2))) = 200
     \<and> nodes (fst (POST (fst (POST w (chunk_upload f idx t1 b1))) (chunk_upload f idx t2 b2)))
         = (nodes (fst (POST w (chunk_upload f idx t1 b1))))
             (abs_segments (chunkPathOf w f idx) \<mapsto> File b2)"
proof -
  define w1 where "w1 = fst (POST w (chunk_upload f idx t1 b1))"
  define U where "U = abs_segments (uploadDirOf w f)"
  define K where "K = abs_segments (chunkPathOf w f idx)"
  define M1 where "M1 = fst (mkdir_walk (nodes w) [] U)"
  note a = POST_accepted [OF acc]
  from a have f: "f \<noteq> []" and idx: "idx \<noteq> []" and p: "parseInt idx \<noteq> None"
    by simp_all
  note aw = POST_accepted_world [OF acc]
  from aw have cwd1: "cwd w1 = cwd w" and walk1: "snd (mkdir_walk (nodes w) [] U) = None"
    and K: "K \<noteq> []" and lastC: "last (chunkPathOf w f idx) \<noteq> CHR ''/''"
    and notdir: "M1 K \<noteq> Some Dir" and n1: "nodes w1 = M1(K \<mapsto> File b1)"
    by (simp_all add: w1_def U_def K_def M1_def)
  have paths: "uploadDirOf w1 f = uploadDirOf w f" "chunkPathOf w1 f idx = chunkPathOf w f idx"
    using uploadDirOf_cwd [OF cwd1] chunkPathOf_cwd [OF cwd1] by simp_all
  have up: "uploadDirOf w f \<noteq> []" "resolve w1 (uploadDirOf w f) = U"
    using uploadDirOf_absolute [OF f, of w] by (simp_all add: resolve_absolute U_def)
  have cp: "chunkPathOf w f idx \<noteq> []" "\<And>w'. resolve w' (chunkPathOf w f idx) = K"
    using chunkPathOf_absolute [OF f, of w idx] by (simp_all add: resolve_absolute K_def)
  have dirs: "M1 (take k U) = Some Dir" if "0 < k" "k \<le> length U" for k
    using mkdir_walk_dirs [of "nodes w" "[]" U M1 k] walk1 that
    by (simp add: M1_def prod_eq_iff)
  have noop: "mkdir_walk (nodes w1) [] U = (nodes w1, None)"
  proof (rule mkdir_walk_noop)
    fix k assume k: "0 < k" "k \<le> length U"
    from dirs [OF k] notdir have "take k U \<noteq> K" by auto
    with dirs [OF k] show "nodes w1 ([] @ take k U) = Some Dir"
      by (simp add: n1)
  qed
  define w1' where "w1' = w1\<lparr>calls := calls w1 @ [Mkdir (uploadDirOf w f)], nodes := nodes w1\<rparr>"
  have m2: "mkdir w1 (uploadDirOf w f) = (w1', None)"
    using mkdir_eq [OF up(1), of w1] noop up(2) by (simp add: w1'_def)
  have parent: "node_at w1' (butlast K) = Some Dir"
  proof (cases "butlast K = []")
    case True
    then show ?thesis by (simp add: node_at_def)
  next
    case False
    have "butlast K \<noteq> K"
      using K by (cases K rule: rev_cases) simp_all
    moreover have "M1 (butlast K) = Some Dir"
      using POST_accepted_parent [OF acc] False by (simp add: U_def K_def M1_def)
    ultimately show ?thesis
      using False by (simp add: node_at_def w1'_def n1)
  qed
  have target: "nodes w1' (resolve w1' (chunkPathOf w f idx)) \<noteq> Some Dir"
    by (simp add: cp(2) w1'_def n1)
  have wr: "writeFile w1' (chunkPathOf w f idx) b2
      = (w1'\<lparr>calls := calls w1' @ [WriteFile (chunkPathOf w f idx) b2],
               nodes := (nodes w1')(K \<mapsto> File b2)\<rparr>, None)"
    using writeFile_succeeds [OF cp(1) lastC _ target, of b2] K parent
    by (simp add: cp(2))
  have "status (snd (POST w1 (chunk_upload f idx t2 b2))) = 200
     \<and> nodes (fst (POST w1 (chunk_upload f idx t2 b2))) = (nodes w1)(K \<mapsto> File b2)"
    using POST_chunk_upload_fst_status [OF f idx t2 p, of w1 b2] m2 wr
    by (simp add: paths w1'_def)
  then show ?thesis
    by (simp add: w1_def K_def)
qed

subsection \<open>Chunk paths of plain index strings\<close>

lemma parseInt_Nil [simp]: "parseInt [] = None"
  by (simp add: parseInt_def)

lemma fresh_upload_world_7:
  "fst (POST fresh_world (chunk_upload ''a.bin'' ''7'' ''8'' b0)) =
     \<lparr>cwd = [''srv''],
      nodes = [[''srv''] \<mapsto> Dir, [''srv'', ''public''] \<mapsto> Dir,
               [''srv'', ''public'', ''uploads''] \<mapsto> Dir,
               [''srv'', ''public'', ''uploads'', ''chunks''] \<mapsto> Dir,
               [''srv'', ''public'', ''uploads'', ''chunks'', ''a.bin''] \<mapsto> Dir,
               [''srv'', ''public'', ''uploads'', ''chunks'', ''a.bin'', ''chunk-7''] \<mapsto> File b0],
      calls = [Mkdir ''/srv/public/uploads/chunks/a.bin'',
               WriteFile ''/srv/public/uploads/chunks/a.bin/chunk-7'' b0]\<rparr>"
  by (simp add: POST_def run_defs)

lemma chunk_key_plain:
  assumes "f \<noteq> []" and "CHR ''/'' \<notin> set idx"
  shows "resolve w (chunkPathOf w f idx) = resolve w (uploadDirOf w f) @ [''chunk-'' @ idx]"
  using abs_segments_chunkPathOf_plain [OF assms, of w]
    chunkPathOf_absolute [OF assms(1), of w idx] uploadDirOf_absolute [OF assms(1), of w]
  by (simp add: resolve_absolute)

lemma chunk_key_abs:
  "f \<noteq> [] \<Longrightarrow> resolve w' (chunkPathOf w f idx) = abs_segments (chunkPathOf w f idx)"
  using chunkPathOf_absolute [of f w idx] by (simp add: resolve_absolute)

lemma POST_two_keys:
  assumes a1: "status (snd (POST w (chunk_upload f i1 t1 b1))) = 200"
    and a2: "status (snd (POST (fst (POST w (chunk_upload f i1 t1 b1)))
                               (chunk_upload f i2 t2 b2))) = 200"
    and ne: "abs_segments (chunkPathOf w f i1) \<noteq> abs_segments (chunkPathOf w f i2)"
  shows "nodes (fst (POST (fst (POST w (chunk_upload f i1 t1 b1))) (chunk_upload f i2 t2 b2)))
            (abs_segments (chunkPathOf w f i1)) = Some (File b1)
       \<and> nodes (fst (POST (fst (POST w (chunk_upload f i1 t1 b1))) (chunk_upload f i2 t2 b2)))
            (abs_segments (chunkPathOf w f i2)) = Some (File b2)"
proof -
  define w1 where "w1 = fst (POST w (chunk_upload f i1 t1 b1))"
  have cwd1: "cwd w1 = cwd w"
    using POST_accepted_world [OF a1] by (simp add: w1_def)
  have same: "chunkPathOf w1 f i2 = chunkPathOf w f i2"
    using chunkPathOf_cwd [OF cwd1] by simp
  have first: "nodes w1 (abs_segments (chunkPathOf w f i1)) = Some (File b1)"
    using POST_accepted_written [OF a1] by (simp add: w1_def)
  have "nodes (fst (POST w1 (chunk_upload f i2 t2 b2))) (abs_segments (chunkPathOf w f i1))
      = Some (File b1)"
    using POST_accepted_frame [of w1 f i2 t2 b2, OF _ first] a2 ne
    by (simp add: w1_def [symmetric] same)
  moreover have "nodes (fst (POST w1 (chunk_upload f i2 t2 b2))) (abs_segments (chunkPathOf w f i2))
      = Some (File b2)"
    using POST_accepted_written [of w1 f i2 t2 b2] a2 by (simp add: w1_def [symmetric] same)
  ultimately show ?thesis
    by (simp add: w1_def)
qed

subsection \<open>Decimal index strings and the order of chunk names\<close>

lemma dec_small: "n < 10 \<Longrightarrow> dec n = [digit_char n]"
  by (simp add: dec.simps)

lemma dec_large: "\<not> n < 10 \<Longrightarrow> dec n = dec (n div 10) @ [digit_char (n mod 10)]"
  by (subst dec.simps) simp

lemma of_char_digit_char: "d < 10 \<Longrightarrow> (of_char (digit_char d) :: nat) = 48 + d"
  by (simp add: digit_char_def)

lemma digit_char_not_sep: "d < 10 \<Longrightarrow> digit_char d \<noteq> CHR ''/''"
proof
  assume d: "d < 10" and "digit_char d = CHR ''/''"
  then have "(of_char (digit_char d) :: nat) = of_char (CHR ''/'')"
    by simp
  with d show False
    by (simp add: of_char_digit_char)
qed

lemma digitValue_digit_char: "d < 10 \<Longrightarrow> digitValue (digit_char d) = Some d"
  by (simp add: digitValue_def of_char_digit_char Let_def)

lemma dec_no_sep: "CHR ''/'' \<notin> set (dec n)"
proof (induction n rule: dec.induct)
  case (1 n)
  show ?case
  proof (cases "n < 10")
    case True
    then show ?thesis
      using digit_char_not_sep [of n] by (auto simp: dec_small)
  next
    case False
    then show ?thesis
      using 1 digit_char_not_sep [of "n mod 10"] by (auto simp: dec_large)
  qed
qed

lemma dec_nonempty: "dec n \<noteq> []"
  by (cases "n < 10") (simp_all add: dec_small dec_large)

lemma digitsValue_snoc: "digitsValue R (Z @ [c]) = digitsValue R Z * R + the (digitValue c)"
  by (simp add: digitsValue_def)

lemma digitsValue_dec: "digitsValue 10 (dec n) = n"
proof (induction n rule: dec.induct)
  case (1 n)
  show ?case
  proof (cases "n < 10")
    case True
    then show ?thesis
      by (simp add: dec_small digitsValue_def digitValue_digit_char)
  next
    case False
    then show ?thesis
      using 1 by (simp add: dec_large digitsValue_snoc digitValue_digit_char)
  qed
qed

lemma dec_inj:
  assumes "dec i = dec j"
  shows "i = j"
proof -
  have "digitsValue 10 (dec i) = digitsValue 10 (dec j)"
    using assms by (rule arg_cong)
  then show ?thesis
    by (simp only: digitsValue_dec)
qed

lemma length_dec_small: "n < 10 \<Longrightarrow> length (dec n) = 1"
  by (simp add: dec_small)

lemma length_dec_large: "\<not> n < 10 \<Longrightarrow> length (dec n) = Suc (length (dec (n div 10)))"
  by (simp add: dec_large)

lemma length_dec_mono: "i \<le> j \<Longrightarrow> length (dec i) \<le> length (dec j)"
proof (induction i arbitrary: j rule: dec.induct)
  case (1 i)
  show ?case
  proof (cases "i < 10")
    case True
    then show ?thesis
      using dec_nonempty [of j] by (cases "dec j") (simp_all add: length_dec_small)
  next
    case False
    with "1.prems" have j: "\<not> j < 10" by simp
    have "i div 10 \<le> j div 10"
      using "1.prems" by (rule div_le_mono)
    from "1.IH" [OF False this] show ?thesis
      using False j by (simp add: length_dec_large)
  qed
qed

lemma sorts_before_same_prefix: "sorts_before (p @ xs) (p @ ys) = sorts_before xs ys"
  by (induction p) simp_all

lemma sorts_before_irrefl: "\<not> sorts_before xs xs"
  by (induction xs) simp_all

lemma sorts_before_append:
  "length xs = length ys \<Longrightarrow> sorts_before xs ys \<Longrightarrow> sorts_before (xs @ a) (ys @ b)"
proof (induction xs ys rule: sorts_before.induct)
  case 1
  then show ?case by simp
next
  case (2 y ys)
  then show ?case by simp
next
  case (3 x xs)
  then show ?case by simp
next
  case (4 x xs y ys)
  then show ?case by auto
qed

lemma sorts_before_dec:
  "i < j \<Longrightarrow> length (dec i) = length (dec j) \<Longrightarrow> sorts_before (dec i) (dec j)"
proof (induction i arbitrary: j rule: dec.induct)
  case (1 i)
  show ?case
  proof (cases "i < 10")
    case True
    have "j < 10"
    proof (rule ccontr)
      assume "\<not> j < 10"
      then have "length (dec j) = Suc (length (dec (j div 10)))"
        by (rule length_dec_large)
      with "1.prems"(2) True dec_nonempty [of "j div 10"] show False
        by (simp add: length_dec_small)
    qed
    with True "1.prems"(1) show ?thesis
      by (simp add: dec_small of_char_digit_char)
  next
    case False
    with "1.prems"(1) have j: "\<not> j < 10" by simp
    have len: "length (dec (i div 10)) = length (dec (j div 10))"
      using "1.prems"(2) False j by (simp add: length_dec_large)
    have le: "i div 10 \<le> j div 10"
      using "1.prems"(1) by (simp add: div_le_mono)
    show ?thesis
    proof (cases "i div 10 < j div 10")
      case True
      from "1.IH" [OF False True len] have "sorts_before (dec (i div 10)) (dec (j div 10))" .
      then show ?thesis
        using False j len by (simp add: dec_large sorts_before_append)
    next
      case eq: False
      with le have same: "i div 10 = j div 10" by simp
      have "i mod 10 < j mod 10"
        using "1.prems"(1) same by (metis div_mult_mod_eq nat_add_left_cancel_less)
      then show ?thesis
        using False j same
        by (simp add: dec_large sorts_before_same_prefix of_char_digit_char)
    qed
  qed
qed

subsection \<open>The chunks root and a file name that leaves it\<close>

lemma chunksRoot_eq: "chunksRoot w = normalize (process_cwd w @ ''/public/uploads/chunks'')"
  using process_cwd_absolute [of w] by (simp add: chunksRoot_def path_join_def)

lemma chunksRoot_absolute: "chunksRoot w \<noteq> [] \<and> hd (chunksRoot w) = CHR ''/''"
  using process_cwd_absolute [of w] by (simp add: chunksRoot_eq normalize_is_absolute)

lemma abs_segments_chunksRoot:
  "abs_segments (chunksRoot w) = abs_segments (process_cwd w) @ [''public'', ''uploads'', ''chunks'']"
proof -
  have abs: "process_cwd w @ ''/public/uploads/chunks'' \<noteq> []
      \<and> hd (process_cwd w @ ''/public/uploads/chunks'') = CHR ''/''"
    using process_cwd_absolute [of w] by simp
  have "abs_segments (process_cwd w @ ''/public/uploads/chunks'')
      = abs_segments (process_cwd w) @ [''public'', ''uploads'', ''chunks'']"
    using abs_segments_sep [of "process_cwd w" "''public/uploads/chunks''"]
    by (simp add: normalizeString_plain plain_def)
  then show ?thesis
    using abs by (simp add: chunksRoot_eq abs_segments_normalize)
qed

lemma upload_dir_from_root:
  assumes "filename \<noteq> []"
  shows "resolve w (uploadDirOf w filename)
     = rev (normalizeString False (rev (resolve w (chunksRoot w))) (split_on (CHR ''/'') filename))"
  using abs_segments_uploadDirOf [OF assms, of w] uploadDirOf_absolute [OF assms, of w]
    chunksRoot_absolute [of w]
  by (simp add: resolve_absolute abs_segments_chunksRoot)

lemma evil_chunk_path:
  "resolve w (chunkPathOf w ''../evil'' ''0'')
     = abs_segments (process_cwd w) @ [''public'', ''uploads'', ''evil'', ''chunk-0'']"
proof -
  have up: "resolve w (uploadDirOf w ''../evil'')
      = abs_segments (process_cwd w) @ [''public'', ''uploads'', ''evil'']"
    using upload_dir_from_root [of "''../evil''" w] chunksRoot_absolute [of w]
    by (simp add: resolve_absolute abs_segments_chunksRoot)
  show ?thesis
    using chunk_key_plain [of "''../evil''" "''0''" w] up by simp
qed

subsection \<open>A sequence of uploads and the reading of its chunks\<close>

lemma POST_all_append:
  "fst (POST_all w (xs @ ys)) = fst (POST_all (fst (POST_all w xs)) ys)
   \<and> snd (POST_all w (xs @ ys)) = snd (POST_all w xs) @ snd (POST_all (fst (POST_all w xs)) ys)"
  by (induction xs arbitrary: w) (simp_all add: case_prod_beta)

lemma POST_all_single:
  "fst (POST_all w [r]) = fst (POST w r) \<and> snd (POST_all w [r]) = [snd (POST w r)]"
  by (simp add: case_prod_beta)

lemma upload_requests_snoc:
  "upload_requests f n (ups @ [(a, b)])
     = upload_requests f n ups @ [chunk_upload f (dec a) (dec n) b]"
  by (simp add: upload_requests_def)

lemma stored_payload_snoc:
  "stored_payload (ups @ [(a, b)]) i = (if i = a then b else stored_payload ups i)"
  by (simp add: stored_payload_def)

lemma dec_chunk_key:
  "f \<noteq> [] \<Longrightarrow> abs_segments (chunkPathOf w f (dec i))
     = abs_segments (uploadDirOf w f) @ [''chunk-'' @ dec i]"
  by (simp add: abs_segments_chunkPathOf_plain dec_no_sep)

lemma dec_chunk_key_inj:
  assumes "f \<noteq> []" and "i \<noteq> j"
  shows "abs_segments (chunkPathOf w f (dec i)) \<noteq> abs_segments (chunkPathOf w f (dec j))"
  using assms dec_inj [of i j] by (auto simp: dec_chunk_key)

lemma uploads_stored:
  assumes "\<forall>r \<in> set (snd (POST_all w (upload_requests f n ups))). status r = 200"
  shows "cwd (fst (POST_all w (upload_requests f n ups))) = cwd w
     \<and> (\<forall>i \<in> fst ` set ups.
           nodes (fst (POST_all w (upload_requests f n ups))) (abs_segments (chunkPathOf w f (dec i)))
             = Some (File (stored_payload ups i)))"
  using assms
proof (induction ups rule: rev_induct)
  case Nil
  then show ?case
    by (simp add: upload_requests_def)
next
  case (snoc u ups)
  obtain a b where u: "u = (a, b)"
    by (cases u)
  define wm where "wm = fst (POST_all w (upload_requests f n ups))"
  define r where "r = chunk_upload f (dec a) (dec n) b"
  have split: "fst (POST_all w (upload_requests f n (ups @ [u]))) = fst (POST wm r)"
    "snd (POST_all w (upload_requests f n (ups @ [u])))
       = snd (POST_all w (upload_requests f n ups)) @ [snd (POST wm r)]"
    by (simp_all add: u upload_requests_snoc POST_all_append wm_def r_def case_prod_beta)
  from snoc.prems have earlier: "\<forall>r \<in> set (snd (POST_all w (upload_requests f n ups))). status r = 200"
    and acc: "status (snd (POST wm r)) = 200"
    by (simp_all add: split)
  note ih = snoc.IH [OF earlier, folded wm_def]
  from ih have cwdm: "cwd wm = cwd w"
    by simp
  have f: "f \<noteq> []"
    using POST_accepted [of wm f "dec a" "dec n" b] acc by (simp add: r_def)
  have path: "chunkPathOf wm f (dec i) = chunkPathOf w f (dec i)" for i
    using chunkPathOf_cwd [OF cwdm] by simp
  note aw = POST_accepted_world [of wm f "dec a" "dec n" b, folded r_def, OF acc]
  have cwd': "cwd (fst (POST wm r)) = cwd w"
    using aw cwdm by simp
  have written: "nodes (fst (POST wm r)) (abs_segments (chunkPathOf w f (dec a))) = Some (File b)"
    using POST_accepted_written [of wm f "dec a" "dec n" b, folded r_def, OF acc]
    by (simp add: path)
  have kept: "nodes (fst (POST wm r)) (abs_segments (chunkPathOf w f (dec i)))
      = Some (File (stored_payload ups i))" if "i \<in> fst ` set ups" "i \<noteq> a" for i
  proof -
    have "nodes wm (abs_segments (chunkPathOf w f (dec i))) = Some (File (stored_payload ups i))"
      using ih that(1) by blast
    moreover have "abs_segments (chunkPathOf w f (dec i)) \<noteq> abs_segments (chunkPathOf wm f (dec a))"
      using dec_chunk_key_inj [OF f that(2), of w] by (simp add: path)
    ultimately show ?thesis
      using POST_accepted_frame [of wm f "dec a" "dec n" b, folded r_def, OF acc] by simp
  qed
  show ?case
    unfolding split(1)
  proof (intro conjI ballI)
    show "cwd (fst (POST wm r)) = cwd w"
      by (rule cwd')
  next
    fix i assume i: "i \<in> fst ` set (ups @ [u])"
    show "nodes (fst (POST wm r)) (abs_segments (chunkPathOf w f (dec i)))
        = Some (File (stored_payload (ups @ [u]) i))"
    proof (cases "i = a")
      case True
      then show ?thesis
        using written by (simp add: u stored_payload_snoc)
    next
      case False
      with i have "i \<in> fst ` set ups"
        by (auto simp: u)
      from kept [OF this False] False show ?thesis
        by (simp add: u stored_payload_snoc)
    qed
  qed
qed

lemma read_in_order_all:
  "(\<And>i. i \<in> set idxs \<Longrightarrow> ChunkStore_read w u i = Some (g i))
   \<Longrightarrow> read_in_order w u idxs = Some (concat (map g idxs))"
  by (induction idxs) simp_all

lemma ChunkStore_read_stored:
  assumes "f \<noteq> []" and "cwd w' = cwd w"
    and "nodes w' (abs_segments (chunkPathOf w f (dec i))) = Some (File b)"
  shows "ChunkStore_read w' f i = Some b"
proof -
  have path: "chunkPathOf w' f (dec i) = chunkPathOf w f (dec i)"
    using chunkPathOf_cwd [OF assms(2)] by simp
  have key: "resolve w' (chunkPathOf w f (dec i)) = abs_segments (chunkPathOf w f (dec i))"
    using assms(1) by (rule chunk_key_abs)
  have "abs_segments (chunkPathOf w f (dec i)) \<noteq> []"
    using dec_chunk_key [OF assms(1), of w i] by simp
  then show ?thesis
    using assms(3) by (simp add: ChunkStore_read_def path key node_at_def)
qed

subsection \<open>Three chunks arriving out of order\<close>

lemma three_chunks_out_of_order:
  "snd (POST_all fresh_world
          [chunk_upload ''a.bin'' ''2'' ''3'' [30], chunk_upload ''a.bin'' ''0'' ''3'' [10],
           chunk_upload ''a.bin'' ''1'' ''3'' [20]])
     = [NextResponseJson True ''Chunk 2 of 3 uploaded successfully'',
        NextResponseJson True ''Chunk 0 of 3 uploaded successfully'',
        NextResponseJson True ''Chunk 1 of 3 uploaded successfully'']"
proof -
  let ?dirs = "[[''srv''] \<mapsto> Dir, [''srv'', ''public''] \<mapsto> Dir,
               [''srv'', ''public'', ''uploads''] \<mapsto> Dir,
               [''srv'', ''public'', ''uploads'', ''chunks''] \<mapsto> Dir,
               [''srv'', ''public'', ''uploads'', ''chunks'', ''a.bin''] \<mapsto> Dir]"
  let ?d = "''/srv/public/uploads/chunks/a.bin''"
  let ?W1 = "\<lparr>cwd = [''srv''],
      nodes = ?dirs([''srv'', ''public'', ''uploads'', ''chunks'', ''a.bin'', ''chunk-2''] \<mapsto> File [30]),
      calls = [Mkdir ?d, WriteFile ''/srv/public/uploads/chunks/a.bin/chunk-2'' [30]]\<rparr>"
  let ?W2 = "\<lparr>cwd = [''srv''],
      nodes = ?dirs([''srv'', ''public'', ''uploads'', ''chunks'', ''a.bin'', ''chunk-2''] \<mapsto> File [30],
                    [''srv'', ''public'', ''uploads'', ''chunks'', ''a.bin'', ''chunk-0''] \<mapsto> File [10]),
      calls = [Mkdir ?d, WriteFile ''/srv/public/uploads/chunks/a.bin/chunk-2'' [30],
               Mkdir ?d, WriteFile ''/srv/public/uploads/chunks/a.bin/chunk-0'' [10]]\<rparr>"
  have 1: "POST fresh_world (chunk_upload ''a.bin'' ''2'' ''3'' [30])
      = (?W1, NextResponseJson True ''Chunk 2 of 3 uploaded successfully'')"
    by (simp add: POST_def run_defs)
  have 2: "POST ?W1 (chunk_upload ''a.bin'' ''0'' ''3'' [10])
      = (?W2, NextResponseJson True ''Chunk 0 of 3 uploaded successfully'')"
    by (simp add: POST_def run_defs)
  have 3: "snd (POST ?W2 (chunk_upload ''a.bin'' ''1'' ''3'' [20]))
      = NextResponseJson True ''Chunk 1 of 3 uploaded successfully''"
    by (simp add: POST_def run_defs)
  show ?thesis
    by (simp add: 1 2 3 case_prod_beta)
qed

lemma three_upload_requests:
  "upload_requests ''a.bin'' 3 [(2, [30]), (0, [10]), (1, [20])]
     = [chunk_upload ''a.bin'' ''2'' ''3'' [30], chunk_upload ''a.bin'' ''0'' ''3'' [10],
        chunk_upload ''a.bin'' ''1'' ''3'' [20]]"
proof -
  have d: "dec 0 = ''0''" "dec (Suc 0) = ''1''" "dec 2 = ''2''" "dec 3 = ''3''"
    by code_simp+
  show ?thesis
    by (simp add: upload_requests_def d)
qed

subsection \<open>Responses\<close>

text \<open>
  Claim C6. A request that lacks one of the four form fields \<^verbatim>\<open>file\<close>,
  \<^verbatim>\<open>chunkIndex\<close>, \<^verbatim>\<open>totalChunks\<close>, \<^verbatim>\<open>filename\<close> is answered with status 400 and
  leaves the world as it was (no file-system call is made). A response with status
  200 is the JSON object with \<^verbatim>\<open>success\<close> true and the message string. When the
  request reaches storage and \<^verbatim>\<open>mkdir\<close> or \<^verbatim>\<open>writeFile\<close> fails, the response is the 500
  one.
\<close>

theorem post_missing_400_accept_json_storage_failure_500:
  "(k \<in> {''file'', ''chunkIndex'', ''totalChunks'', ''filename''} \<and> formGet fd k = None
      \<longrightarrow> POST w (FormData fd) = (w, NextResponse ''Missing required form data'' 400))
   \<and> (status (snd (POST w r)) = 200
      \<longrightarrow> (\<exists>message. snd (POST w r) = NextResponseJson True message))
   \<and> (filename \<noteq> [] \<and> chunkIndex \<noteq> [] \<and> totalChunks \<noteq> [] \<and> parseInt chunkIndex \<noteq> None
       \<and> (snd (mkdir w (uploadDirOf w filename)) \<noteq> None
            \<or> snd (writeFile (fst (mkdir w (uploadDirOf w filename)))
                      (chunkPathOf w filename chunkIndex) payload) \<noteq> None)
      \<longrightarrow> snd (POST w (chunk_upload filename chunkIndex totalChunks payload))
            = NextResponse ''Chunk upload failed'' 500)"
proof (intro conjI impI)
  assume "k \<in> {''file'', ''chunkIndex'', ''totalChunks'', ''filename''} \<and> formGet fd k = None"
  then have "\<not> truthy (formGet fd ''file'') \<or> stringOrEmpty (formGet fd ''chunkIndex'') = []
     \<or> stringOrEmpty (formGet fd ''totalChunks'') = []
     \<or> stringOrEmpty (formGet fd ''filename'') = []"
    by auto
  then show "POST w (FormData fd) = (w, NextResponse ''Missing required form data'' 400)"
    by (rule POST_missing)
next
  assume "status (snd (POST w r)) = 200"
  then show "\<exists>message. snd (POST w r) = NextResponseJson True message"
    by (rule POST_ok_is_json)
next
  assume a: "filename \<noteq> [] \<and> chunkIndex \<noteq> [] \<and> totalChunks \<noteq> [] \<and> parseInt chunkIndex \<noteq> None
       \<and> (snd (mkdir w (uploadDirOf w filename)) \<noteq> None
            \<or> snd (writeFile (fst (mkdir w (uploadDirOf w filename)))
                      (chunkPathOf w filename chunkIndex) payload) \<noteq> None)"
  then obtain n where n: "parseInt chunkIndex = Some n" by auto
  from a have "POST w (chunk_upload filename chunkIndex totalChunks payload) =
       (case mkdir w (uploadDirOf w filename) of
          (w1, Some e) \<Rightarrow> (w1, uploadFailed)
        | (w1, None) \<Rightarrow>
           (case writeFile w1 (chunkPathOf w filename chunkIndex) payload of
              (w2, Some e) \<Rightarrow> (w2, uploadFailed)
            | (w2, None) \<Rightarrow>
                (w2, NextResponseJson True
                       (''Chunk '' @ chunkIndex @ '' of '' @ totalChunks
                          @ '' uploaded successfully''))))"
    using n by (intro POST_chunk_upload) auto
  with a show "snd (POST w (chunk_upload filename chunkIndex totalChunks payload))
            = NextResponse ''Chunk upload failed'' 500"
    by (auto simp: uploadFailed_def split: prod.splits option.splits)
qed

theorem post_missing_400_accept_json_storage_failure_500_witness:
  "POST fresh_world (FormData [(''file'', Blob [1, 2]), (''chunkIndex'', Str ''0''),
                               (''filename'', Str ''a.bin'')])
     = (fresh_world, NextResponse ''Missing required form data'' 400)
   \<and> status (snd (POST fresh_world (chunk_upload ''a.bin'' ''0'' ''1'' [1, 2]))) = 200
   \<and> (\<exists>message. snd (POST fresh_world (chunk_upload ''a.bin'' ''0'' ''1'' [1, 2]))
                    = NextResponseJson True message)
   \<and> snd (mkdir blocked_world (uploadDirOf blocked_world ''a.bin'')) \<noteq> None
   \<and> snd (POST blocked_world (chunk_upload ''a.bin'' ''0'' ''1'' [1, 2]))
       = NextResponse ''Chunk upload failed'' 500"
proof -
  have h1: "''totalChunks'' \<in> {''file'', ''chunkIndex'', ''totalChunks'', ''filename''}
      \<and> formGet [(''file'', Blob [1, 2]), (''chunkIndex'', Str ''0''),
                 (''filename'', Str ''a.bin'')] ''totalChunks'' = None"
    by (simp add: formGet_def)
  have h2: "status (snd (POST fresh_world (chunk_upload ''a.bin'' ''0'' ''1'' [1, 2]))) = 200"
    by (simp add: POST_def run_defs)
  have h3: "snd (mkdir blocked_world (uploadDirOf blocked_world ''a.bin'')) \<noteq> None"
    by (simp add: run_defs)
  have h4: "''a.bin'' \<noteq> [] \<and> ''0'' \<noteq> [] \<and> ''1'' \<noteq> [] \<and> parseInt ''0'' \<noteq> None"
    by (simp add: run_defs)
  from h1 h2 h3 h4
    post_missing_400_accept_json_storage_failure_500
      [of "''totalChunks''" "[(''file'', Blob [1, 2]), (''chunkIndex'', Str ''0''),
                 (''filename'', Str ''a.bin'')]" fresh_world
          "chunk_upload ''a.bin'' ''0'' ''1'' [1, 2]" "''a.bin''" "''0''" "''1''" "[1, 2]"]
    post_missing_400_accept_json_storage_failure_500
      [of "''totalChunks''" "[(''file'', Blob [1, 2]), (''chunkIndex'', Str ''0''),
                 (''filename'', Str ''a.bin'')]" blocked_world
          "chunk_upload ''a.bin'' ''0'' ''1'' [1, 2]" "''a.bin''" "''0''" "''1''" "[1, 2]"]
  show ?thesis by blast
qed
subsection \<open>Validation of the chunk index\<close>

text \<open>
  Claim C2 (as stated, refuted). The handler does not compare the chunk index with
  \<^verbatim>\<open>totalChunks\<close> and does not ask for a non-negative value: index 5 of 3 chunks and
  index -1 are both accepted, and index 5 is written to disk.
\<close>

theorem post_accepts_index_out_of_range:
  "parseInt ''5'' = Some 5 \<and> parseInt ''3'' = Some 3
   \<and> snd (POST fresh_world (chunk_upload ''a.bin'' ''5'' ''3'' [1, 2]))
       = NextResponseJson True ''Chunk 5 of 3 uploaded successfully''
   \<and> nodes (fst (POST fresh_world (chunk_upload ''a.bin'' ''5'' ''3'' [1, 2])))
         [''srv'', ''public'', ''uploads'', ''chunks'', ''a.bin'', ''chunk-5'']
       = Some (File [1, 2])
   \<and> parseInt ''-1'' = Some (- 1)
   \<and> snd (POST fresh_world (chunk_upload ''a.bin'' ''-1'' ''3'' [1, 2]))
       = NextResponseJson True ''Chunk -1 of 3 uploaded successfully''"
  by (simp add: POST_def run_defs)

text \<open>
  Claim C2 (amended). With all four fields present, the handler answers 400
  (\<^verbatim>\<open>Invalid chunk index\<close>) and leaves the world untouched when \<^verbatim>\<open>parseInt\<close> of the
  chunk index is \<^verbatim>\<open>NaN\<close>; every other chunk index passes the validation, whatever its
  sign and whatever \<^verbatim>\<open>totalChunks\<close> says.
\<close>

theorem post_rejects_exactly_unparsable_index:
  assumes "truthy (formGet fd ''file'')"
    and "stringOrEmpty (formGet fd ''chunkIndex'') \<noteq> []"
    and "stringOrEmpty (formGet fd ''totalChunks'') \<noteq> []"
    and "stringOrEmpty (formGet fd ''filename'') \<noteq> []"
  shows "(parseInt (stringOrEmpty (formGet fd ''chunkIndex'')) = None
          \<longrightarrow> POST w (FormData fd) = (w, NextResponse ''Invalid chunk index'' 400))
       \<and> (parseInt (stringOrEmpty (formGet fd ''chunkIndex'')) \<noteq> None
          \<longrightarrow> status (snd (POST w (FormData fd))) \<noteq> 400)"
proof (intro conjI impI)
  assume "parseInt (stringOrEmpty (formGet fd ''chunkIndex'')) = None"
  with assms show "POST w (FormData fd) = (w, NextResponse ''Invalid chunk index'' 400)"
    by (intro POST_invalid)
next
  assume "parseInt (stringOrEmpty (formGet fd ''chunkIndex'')) \<noteq> None"
  then obtain n where "parseInt (stringOrEmpty (formGet fd ''chunkIndex'')) = Some n"
    by auto
  from POST_storage [OF assms this, of w]
  show "status (snd (POST w (FormData fd))) \<noteq> 400"
    by (simp add: uploadFailed_def split: prod.splits option.splits)
qed

theorem post_rejects_exactly_unparsable_index_witness:
  "POST fresh_world (chunk_upload ''a.bin'' ''abc'' ''3'' [1, 2])
     = (fresh_world, NextResponse ''Invalid chunk index'' 400)
   \<and> status (snd (POST fresh_world (chunk_upload ''a.bin'' ''5'' ''3'' [1, 2]))) \<noteq> 400"
proof -
  let ?bad = "[(''file'', Blob [1, 2]), (''chunkIndex'', Str ''abc''),
               (''totalChunks'', Str ''3''), (''filename'', Str ''a.bin'')]"
  let ?good = "[(''file'', Blob [1, 2]), (''chunkIndex'', Str ''5''),
               (''totalChunks'', Str ''3''), (''filename'', Str ''a.bin'')]"
  have nan: "parseInt (stringOrEmpty (formGet ?bad ''chunkIndex'')) = None"
    by (simp add: run_defs)
  have num: "parseInt (stringOrEmpty (formGet ?good ''chunkIndex'')) \<noteq> None"
    by (simp add: run_defs)
  have a: "POST fresh_world (FormData ?bad) = (fresh_world, NextResponse ''Invalid chunk index'' 400)"
    using post_rejects_exactly_unparsable_index [of ?bad fresh_world] nan
    by (simp add: formGet_def)
  have b: "status (snd (POST fresh_world (FormData ?good))) \<noteq> 400"
    using post_rejects_exactly_unparsable_index [of ?good fresh_world] num
    by (simp add: formGet_def)
  from a b show ?thesis
    by (simp add: chunk_upload_def)
qed

subsection \<open>The size ceiling\<close>

text \<open>
  Claim C5 (as stated, refuted). The handler accepts two chunks of one upload of 1 GiB
  each: the sum of the accepted chunk sizes exceeds the ceiling.
\<close>

theorem post_accepts_chunks_beyond_ceiling:
  "snd (POST_all fresh_world
          [chunk_upload ''a.bin'' ''0'' ''2'' (replicate MAX_FILE_SIZE 0),
           chunk_upload ''a.bin'' ''1'' ''2'' (replicate MAX_FILE_SIZE 0)])
     = [NextResponseJson True ''Chunk 0 of 2 uploaded successfully'',
        NextResponseJson True ''Chunk 1 of 2 uploaded successfully'']
   \<and> MAX_FILE_SIZE < length (replicate MAX_FILE_SIZE (0 :: 8 word))
                        + length (replicate MAX_FILE_SIZE (0 :: 8 word))"
proof -
  have "0 < MAX_FILE_SIZE"
    by (simp add: MAX_FILE_SIZE_def)
  then show ?thesis
    using two_chunks_accepted [of "replicate MAX_FILE_SIZE 0" "replicate MAX_FILE_SIZE 0"]
    by simp
qed

text \<open>
  Claim C5 (amended). The 1 GiB ceiling is enforced by the client only: \<open>onDrop\<close>
  rejects a selected file larger than \<open>MAX_FILE_SIZE\<close> (a toast is shown, the selection
  stays as it was), so no file that \<open>handleUpload\<close> sends exceeds the ceiling. On the
  server, whether a chunk is accepted does not depend on its bytes, hence not on its
  size.
\<close>

theorem size_ceiling_enforced_by_client_only:
  "(MAX_FILE_SIZE < file_size selectedFile
      \<longrightarrow> onDrop st (selectedFile # rest)
            = Some (st\<lparr>toasts := toasts st
                        @ [(''File too large'', ''Maximum file size is 1GB.'')]\<rparr>))
   \<and> (\<forall>g \<in> set (snd (ui_run initial_upload_state events)). file_size g \<le> MAX_FILE_SIZE)
   \<and> status (snd (POST w (chunk_upload filename chunkIndex totalChunks payload)))
       = status (snd (POST w (chunk_upload filename chunkIndex totalChunks payload')))"
proof (intro conjI impI ballI)
  assume "MAX_FILE_SIZE < file_size selectedFile"
  then show "onDrop st (selectedFile # rest)
      = Some (st\<lparr>toasts := toasts st @ [(''File too large'', ''Maximum file size is 1GB.'')]\<rparr>)"
    by (simp add: onDrop_def)
next
  fix g assume "g \<in> set (snd (ui_run initial_upload_state events))"
  then show "file_size g \<le> MAX_FILE_SIZE"
    by (rule ui_run_sent_bounded [rotated]) (simp add: initial_upload_state_def)
next
  show "status (snd (POST w (chunk_upload filename chunkIndex totalChunks payload)))
       = status (snd (POST w (chunk_upload filename chunkIndex totalChunks payload')))"
  proof (cases "filename = [] \<or> chunkIndex = [] \<or> totalChunks = [] \<or> parseInt chunkIndex = None")
    case True
    then show ?thesis
      by (simp only: POST_chunk_upload_rejected)
  next
    case False
    then have ok: "filename \<noteq> []" "chunkIndex \<noteq> []" "totalChunks \<noteq> []"
        "parseInt chunkIndex \<noteq> None"
      by simp_all
    show ?thesis
      using writeFile_error_any_data
        [of "fst (mkdir w (uploadDirOf w filename))" "chunkPathOf w filename chunkIndex"
            payload payload']
      by (simp only: POST_chunk_upload_fst_status [OF ok])
  qed
qed

theorem size_ceiling_enforced_by_client_only_witness:
  "onDrop initial_upload_state [\<lparr>file_name = ''big.iso'', file_size = MAX_FILE_SIZE + 1\<rparr>]
     = Some (initial_upload_state
              \<lparr>toasts := [(''File too large'', ''Maximum file size is 1GB.'')]\<rparr>)
   \<and> snd (ui_run initial_upload_state
            [Drop [\<lparr>file_name = ''big.iso'', file_size = MAX_FILE_SIZE + 1\<rparr>], Upload,
             Drop [\<lparr>file_name = ''ok.bin'', file_size = 7\<rparr>], Upload])
       = [\<lparr>file_name = ''ok.bin'', file_size = 7\<rparr>]
   \<and> file_size \<lparr>file_name = ''ok.bin'', file_size = 7\<rparr> \<le> MAX_FILE_SIZE
   \<and> status (snd (POST fresh_world (chunk_upload ''a.bin'' ''0'' ''2'' [1, 2]))) = 200
   \<and> status (snd (POST fresh_world
                     (chunk_upload ''a.bin'' ''0'' ''2'' (replicate (MAX_FILE_SIZE + 1) 0))))
       = 200"
proof -
  let ?big = "\<lparr>file_name = ''big.iso'', file_size = MAX_FILE_SIZE + 1\<rparr>"
  let ?ok = "\<lparr>file_name = ''ok.bin'', file_size = 7\<rparr>"
  let ?events = "[Drop [?big], Upload, Drop [?ok], Upload]"
  have big: "MAX_FILE_SIZE < file_size ?big"
    by simp
  have sent: "snd (ui_run initial_upload_state ?events) = [?ok]"
    by (simp add: onDrop_def handleUpload_def initial_upload_state_def MAX_FILE_SIZE_def)
  have small: "status (snd (POST fresh_world (chunk_upload ''a.bin'' ''0'' ''2'' [1, 2]))) = 200"
    by (simp add: POST_def run_defs)
  note inst = size_ceiling_enforced_by_client_only
      [of ?big initial_upload_state "[]" ?events fresh_world "''a.bin''" "''0''" "''2''"
          "[1, 2]" "replicate (MAX_FILE_SIZE + 1) 0"]
  from inst [THEN conjunct1] big have 1: "onDrop initial_upload_state [?big]
     = Some (initial_upload_state
              \<lparr>toasts := [(''File too large'', ''Maximum file size is 1GB.'')]\<rparr>)"
    by (simp add: initial_upload_state_def)
  have 2: "file_size ?ok \<le> MAX_FILE_SIZE"
    using inst [THEN conjunct2, THEN conjunct1] unfolding sent by simp
  from inst [THEN conjunct2, THEN conjunct2] small
  have 3: "status (snd (POST fresh_world
                     (chunk_upload ''a.bin'' ''0'' ''2'' (replicate (MAX_FILE_SIZE + 1) 0)))) = 200"
    by simp
  from 1 sent 2 small 3 show ?thesis
    by blast
qed

subsection \<open>The declared chunk count and the way a chunk is written\<close>

text \<open>
  Claim C7 (as stated, refuted). After a first chunk upload for \<^verbatim>\<open>a.bin\<close> that declares
  2 chunks, a second upload for \<^verbatim>\<open>a.bin\<close> that declares 3 chunks is accepted and stored.
\<close>

theorem post_accepts_changed_totalChunks:
  "snd (POST fresh_world (chunk_upload ''a.bin'' ''0'' ''2'' [1]))
     = NextResponseJson True ''Chunk 0 of 2 uploaded successfully''
   \<and> snd (POST (fst (POST fresh_world (chunk_upload ''a.bin'' ''0'' ''2'' [1])))
              (chunk_upload ''a.bin'' ''1'' ''3'' [2]))
       = NextResponseJson True ''Chunk 1 of 3 uploaded successfully''
   \<and> nodes (fst (POST (fst (POST fresh_world (chunk_upload ''a.bin'' ''0'' ''2'' [1])))
                     (chunk_upload ''a.bin'' ''1'' ''3'' [2])))
         [''srv'', ''public'', ''uploads'', ''chunks'', ''a.bin'', ''chunk-1'']
       = Some (File [2])"
proof -
  have 1: "snd (POST fresh_world (chunk_upload ''a.bin'' ''0'' ''2'' [1]))
     = NextResponseJson True ''Chunk 0 of 2 uploaded successfully''"
    by (simp add: POST_def run_defs)
  have 2: "POST (fst (POST fresh_world (chunk_upload ''a.bin'' ''0'' ''2'' [1])))
              (chunk_upload ''a.bin'' ''1'' ''3'' [2]) = (w2, r2)
      \<Longrightarrow> r2 = NextResponseJson True ''Chunk 1 of 3 uploaded successfully''
        \<and> nodes w2 [''srv'', ''public'', ''uploads'', ''chunks'', ''a.bin'', ''chunk-1'']
            = Some (File [2])" for w2 r2
    unfolding fresh_upload_world by (auto simp add: POST_def run_defs)
  show ?thesis
    using 1 2 [OF surjective_pairing] by simp
qed

text \<open>
  Claim C7 (amended). The handler keeps no record of the \<^verbatim>\<open>totalChunks\<close> of an upload:
  the field only has to be non-empty and is echoed in the success message. In any
  world, so also after earlier uploads for the same file name, a chunk upload that
  declares another \<^verbatim>\<open>totalChunks\<close> gets the same status and has the same effect on the
  world as the one that declares the original value.
\<close>

theorem post_ignores_totalChunks_value:
  assumes "totalChunks \<noteq> []" and "totalChunks' \<noteq> []"
  shows "fst (POST w (chunk_upload filename chunkIndex totalChunks' payload))
           = fst (POST w (chunk_upload filename chunkIndex totalChunks payload))
       \<and> status (snd (POST w (chunk_upload filename chunkIndex totalChunks' payload)))
           = status (snd (POST w (chunk_upload filename chunkIndex totalChunks payload)))"
proof (cases "filename = [] \<or> chunkIndex = [] \<or> parseInt chunkIndex = None")
  case True
  then have "filename = [] \<or> chunkIndex = [] \<or> t = [] \<or> parseInt chunkIndex = None"
    for t :: string
    by auto
  from POST_chunk_upload_rejected [OF this] show ?thesis
    by simp
next
  case False
  then have ok: "filename \<noteq> []" "chunkIndex \<noteq> []" "parseInt chunkIndex \<noteq> None"
    by simp_all
  show ?thesis
    by (simp only: POST_chunk_upload_fst_status [OF ok(1,2) assms(1) ok(3)]
          POST_chunk_upload_fst_status [OF ok(1,2) assms(2) ok(3)])
qed

theorem post_ignores_totalChunks_value_witness:
  "status (snd (POST (fst (POST fresh_world (chunk_upload ''a.bin'' ''0'' ''2'' [1])))
                     (chunk_upload ''a.bin'' ''1'' ''3'' [2]))) = 200
   \<and> fst (POST (fst (POST fresh_world (chunk_upload ''a.bin'' ''0'' ''2'' [1])))
                (chunk_upload ''a.bin'' ''1'' ''3'' [2]))
       = fst (POST (fst (POST fresh_world (chunk_upload ''a.bin'' ''0'' ''2'' [1])))
                   (chunk_upload ''a.bin'' ''1'' ''2'' [2]))"
proof -
  have t: "''2'' \<noteq> []" and t': "''3'' \<noteq> []"
    by simp_all
  have "status (snd (POST (fst (POST fresh_world (chunk_upload ''a.bin'' ''0'' ''2'' [1])))
                     (chunk_upload ''a.bin'' ''1'' ''2'' [2]))) = 200"
    unfolding fresh_upload_world by (simp add: POST_def run_defs)
  with post_ignores_totalChunks_value
      [OF t t', of "fst (POST fresh_world (chunk_upload ''a.bin'' ''0'' ''2'' [1]))"
         "''a.bin''" "''1''" "[2]"]
  show ?thesis by simp
qed

text \<open>
  Claim C8 (as stated, refuted). The handler writes a chunk with one \<^verbatim>\<open>writeFile\<close> call
  on the final chunk path, for a new chunk and for an overwrite alike; no temporary
  path is written and nothing is renamed.
\<close>

theorem post_writes_chunk_path_directly:
  "chunkPathOf fresh_world ''a.bin'' ''0'' = ''/srv/public/uploads/chunks/a.bin/chunk-0''
   \<and> calls (fst (POST fresh_world (chunk_upload ''a.bin'' ''0'' ''2'' [1, 2])))
       = [Mkdir ''/srv/public/uploads/chunks/a.bin'',
          WriteFile ''/srv/public/uploads/chunks/a.bin/chunk-0'' [1, 2]]
   \<and> calls (fst (POST (fst (POST fresh_world (chunk_upload ''a.bin'' ''0'' ''2'' [1, 2])))
                     (chunk_upload ''a.bin'' ''0'' ''2'' [3])))
       = [Mkdir ''/srv/public/uploads/chunks/a.bin'',
          WriteFile ''/srv/public/uploads/chunks/a.bin/chunk-0'' [1, 2],
          Mkdir ''/srv/public/uploads/chunks/a.bin'',
          WriteFile ''/srv/public/uploads/chunks/a.bin/chunk-0'' [3]]"
proof -
  have 1: "chunkPathOf fresh_world ''a.bin'' ''0'' = ''/srv/public/uploads/chunks/a.bin/chunk-0''"
    by (simp add: run_defs)
  have 2: "calls (fst (POST fresh_world (chunk_upload ''a.bin'' ''0'' ''2'' [1, 2])))
       = [Mkdir ''/srv/public/uploads/chunks/a.bin'',
          WriteFile ''/srv/public/uploads/chunks/a.bin/chunk-0'' [1, 2]]"
    unfolding fresh_upload_world by simp
  have 3: "calls (fst (POST (fst (POST fresh_world (chunk_upload ''a.bin'' ''0'' ''2'' [1, 2])))
                     (chunk_upload ''a.bin'' ''0'' ''2'' [3])))
       = [Mkdir ''/srv/public/uploads/chunks/a.bin'',
          WriteFile ''/srv/public/uploads/chunks/a.bin/chunk-0'' [1, 2],
          Mkdir ''/srv/public/uploads/chunks/a.bin'',
          WriteFile ''/srv/public/uploads/chunks/a.bin/chunk-0'' [3]]"
    unfolding fresh_upload_world by (simp add: POST_def run_defs)
  from 1 2 3 show ?thesis by blast
qed

text \<open>
  Claim C8 (amended). Every accepted chunk write, the overwrite of an existing index
  included, is performed by exactly two file-system calls: the recursive \<^verbatim>\<open>mkdir\<close> of
  the upload directory and one \<^verbatim>\<open>writeFile\<close> of the bytes at the final chunk path.
\<close>

theorem accepted_chunk_is_one_direct_writeFile:
  assumes "status (snd (POST w (chunk_upload filename chunkIndex totalChunks payload))) = 200"
  shows "calls (fst (POST w (chunk_upload filename chunkIndex totalChunks payload)))
           = calls w @ [Mkdir (uploadDirOf w filename),
                        WriteFile (chunkPathOf w filename chunkIndex) payload]"
  using POST_accepted_world [OF assms] by simp

theorem accepted_chunk_is_one_direct_writeFile_witness:
  "status (snd (POST (fst (POST fresh_world (chunk_upload ''a.bin'' ''0'' ''2'' [1, 2])))
                     (chunk_upload ''a.bin'' ''0'' ''2'' [3]))) = 200
   \<and> calls (fst (POST (fst (POST fresh_world (chunk_upload ''a.bin'' ''0'' ''2'' [1, 2])))
                     (chunk_upload ''a.bin'' ''0'' ''2'' [3])))
       = [Mkdir ''/srv/public/uploads/chunks/a.bin'',
          WriteFile ''/srv/public/uploads/chunks/a.bin/chunk-0'' [1, 2],
          Mkdir ''/srv/public/uploads/chunks/a.bin'',
          WriteFile ''/srv/public/uploads/chunks/a.bin/chunk-0'' [3]]"
proof -
  let ?w1 = "fst (POST fresh_world (chunk_upload ''a.bin'' ''0'' ''2'' [1, 2]))"
  have acc: "status (snd (POST ?w1 (chunk_upload ''a.bin'' ''0'' ''2'' [3]))) = 200"
    unfolding fresh_upload_world by (simp add: POST_def run_defs)
  have paths: "uploadDirOf ?w1 ''a.bin'' = ''/srv/public/uploads/chunks/a.bin''"
      "chunkPathOf ?w1 ''a.bin'' ''0'' = ''/srv/public/uploads/chunks/a.bin/chunk-0''"
      "calls ?w1 = [Mkdir ''/srv/public/uploads/chunks/a.bin'',
                    WriteFile ''/srv/public/uploads/chunks/a.bin/chunk-0'' [1, 2]]"
    unfolding fresh_upload_world by (simp_all add: run_defs)
  from accepted_chunk_is_one_direct_writeFile [OF acc] acc paths show ?thesis
    by simp
qed

subsection \<open>Writing the same chunk twice\<close>

text \<open>
  Claim C3. Two writes for the same file name and the same chunk index string: when
  the first request is accepted, so is the second (whatever bytes and non-empty
  \<^verbatim>\<open>totalChunks\<close> it carries); afterwards the chunk path holds the bytes of the second
  write, and the directory tree differs from the one after the first write at that
  path only, which existed already: no further chunk is recorded.
\<close>

theorem rewrite_of_chunk_is_last_write_wins:
  assumes "status (snd (POST w (chunk_upload filename chunkIndex totalChunks payload))) = 200"
    and "totalChunks' \<noteq> []"
  shows "status (snd (POST (fst (POST w (chunk_upload filename chunkIndex totalChunks payload)))
                       (chunk_upload filename chunkIndex totalChunks' payload'))) = 200
     \<and> nodes (fst (POST (fst (POST w (chunk_upload filename chunkIndex totalChunks payload)))
                       (chunk_upload filename chunkIndex totalChunks' payload')))
            (resolve w (chunkPathOf w filename chunkIndex)) = Some (File payload')
     \<and> nodes (fst (POST (fst (POST w (chunk_upload filename chunkIndex totalChunks payload)))
                       (chunk_upload filename chunkIndex totalChunks' payload')))
         = (nodes (fst (POST w (chunk_upload filename chunkIndex totalChunks payload))))
             (resolve w (chunkPathOf w filename chunkIndex) \<mapsto> File payload')
     \<and> dom (nodes (fst (POST (fst (POST w (chunk_upload filename chunkIndex totalChunks payload)))
                       (chunk_upload filename chunkIndex totalChunks' payload'))))
         = dom (nodes (fst (POST w (chunk_upload filename chunkIndex totalChunks payload))))"
proof -
  have f: "filename \<noteq> []"
    using POST_accepted [OF assms(1)] by simp
  have key: "resolve w (chunkPathOf w filename chunkIndex)
      = abs_segments (chunkPathOf w filename chunkIndex)"
    using chunkPathOf_absolute [OF f, of w chunkIndex] by (simp add: resolve_absolute)
  have "abs_segments (chunkPathOf w filename chunkIndex)
      \<in> dom (nodes (fst (POST w (chunk_upload filename chunkIndex totalChunks payload))))"
    using POST_accepted_written [OF assms(1)] by auto
  then show ?thesis
    using POST_rewrite [OF assms, of payload'] by (auto simp: key)
qed

theorem rewrite_of_chunk_is_last_write_wins_witness:
  "status (snd (POST fresh_world (chunk_upload ''a.bin'' ''0'' ''2'' [1, 2]))) = 200
   \<and> status (snd (POST (fst (POST fresh_world (chunk_upload ''a.bin'' ''0'' ''2'' [1, 2])))
                       (chunk_upload ''a.bin'' ''0'' ''2'' [3]))) = 200
   \<and> nodes (fst (POST (fst (POST fresh_world (chunk_upload ''a.bin'' ''0'' ''2'' [1, 2])))
                     (chunk_upload ''a.bin'' ''0'' ''2'' [3])))
         [''srv'', ''public'', ''uploads'', ''chunks'', ''a.bin'', ''chunk-0'']
       = Some (File [3])"
proof -
  have acc: "status (snd (POST fresh_world (chunk_upload ''a.bin'' ''0'' ''2'' [1, 2]))) = 200"
    by (simp add: POST_def run_defs)
  have t: "''2'' \<noteq> []"
    by simp
  have key: "resolve fresh_world (chunkPathOf fresh_world ''a.bin'' ''0'')
      = [''srv'', ''public'', ''uploads'', ''chunks'', ''a.bin'', ''chunk-0'']"
    by (simp add: run_defs)
  from rewrite_of_chunk_is_last_write_wins [OF acc t, of "[3]"] acc show ?thesis
    unfolding key by blast
qed

subsection \<open>The chunk index string in the file name\<close>

text \<open>
  Claim C10 (as stated, refuted). The chunk index strings \<^verbatim>\<open>0\<close> and \<^verbatim>\<open>0/.\<close> differ and
  parse to the same integer, yet both requests are written to the same chunk file:
  \<^verbatim>\<open>path.join\<close> normalises \<^verbatim>\<open>chunk-0/.\<close> to \<^verbatim>\<open>chunk-0\<close>, and the second write replaces
  the first.
\<close>

theorem distinct_index_strings_same_chunk_file:
  "''0'' \<noteq> ''0/.'' \<and> parseInt ''0'' = Some 0 \<and> parseInt ''0/.'' = Some 0
   \<and> chunkPathOf fresh_world ''a.bin'' ''0'' = ''/srv/public/uploads/chunks/a.bin/chunk-0''
   \<and> chunkPathOf fresh_world ''a.bin'' ''0/.'' = ''/srv/public/uploads/chunks/a.bin/chunk-0''
   \<and> snd (POST fresh_world (chunk_upload ''a.bin'' ''0'' ''2'' [1]))
       = NextResponseJson True ''Chunk 0 of 2 uploaded successfully''
   \<and> snd (POST (fst (POST fresh_world (chunk_upload ''a.bin'' ''0'' ''2'' [1])))
              (chunk_upload ''a.bin'' ''0/.'' ''2'' [2]))
       = NextResponseJson True ''Chunk 0/. of 2 uploaded successfully''
   \<and> calls (fst (POST (fst (POST fresh_world (chunk_upload ''a.bin'' ''0'' ''2'' [1])))
                     (chunk_upload ''a.bin'' ''0/.'' ''2'' [2])))
       = [Mkdir ''/srv/public/uploads/chunks/a.bin'',
          WriteFile ''/srv/public/uploads/chunks/a.bin/chunk-0'' [1],
          Mkdir ''/srv/public/uploads/chunks/a.bin'',
          WriteFile ''/srv/public/uploads/chunks/a.bin/chunk-0'' [2]]"
proof -
  have 1: "''0'' \<noteq> ''0/.'' \<and> parseInt ''0'' = Some 0 \<and> parseInt ''0/.'' = Some 0"
    by (simp add: run_defs)
  have 2: "chunkPathOf fresh_world ''a.bin'' ''0'' = ''/srv/public/uploads/chunks/a.bin/chunk-0''"
    by (simp add: run_defs)
  have 3: "chunkPathOf fresh_world ''a.bin'' ''0/.'' = ''/srv/public/uploads/chunks/a.bin/chunk-0''"
    by (simp add: run_defs)
  have 4: "snd (POST fresh_world (chunk_upload ''a.bin'' ''0'' ''2'' [1]))
       = NextResponseJson True ''Chunk 0 of 2 uploaded successfully''"
    by (simp add: POST_def run_defs)
  have 5: "POST (fst (POST fresh_world (chunk_upload ''a.bin'' ''0'' ''2'' [1])))
              (chunk_upload ''a.bin'' ''0/.'' ''2'' [2]) = (w2, r2)
      \<Longrightarrow> r2 = NextResponseJson True ''Chunk 0/. of 2 uploaded successfully''
        \<and> calls w2 = [Mkdir ''/srv/public/uploads/chunks/a.bin'',
          WriteFile ''/srv/public/uploads/chunks/a.bin/chunk-0'' [1],
          Mkdir ''/srv/public/uploads/chunks/a.bin'',
          WriteFile ''/srv/public/uploads/chunks/a.bin/chunk-0'' [2]]" for w2 r2
    unfolding fresh_upload_world by (auto simp add: POST_def run_defs)
  show ?thesis
    using 1 2 3 4 5 [OF surjective_pairing] by simp
qed

text \<open>
  Claim C10 (amended). The stored chunk file name embeds the chunk index string as it
  was sent, not its parsed value. Every string whose \<^verbatim>\<open>parseInt\<close> is a number passes
  validation, negative numbers and strings with trailing non-digits included. For an
  index string without a path separator the chunk file is \<^verbatim>\<open>chunk-\<close> followed by that
  string, directly in the upload directory; so two accepted requests for one file name
  whose index strings differ and contain no separator, such as \<^verbatim>\<open>7\<close> and \<^verbatim>\<open>07\<close> that
  parse to the same integer, are stored in two distinct chunk files.
\<close>

theorem raw_index_string_names_chunk_file:
  "(filename \<noteq> [] \<and> totalChunks \<noteq> [] \<and> parseInt chunkIndex \<noteq> None
      \<longrightarrow> status (snd (POST w (chunk_upload filename chunkIndex totalChunks payload))) \<noteq> 400)
   \<and> parseInt ''-1'' = Some (- 1) \<and> parseInt ''7abc'' = Some 7
   \<and> parseInt ''7'' = Some 7 \<and> parseInt ''07'' = Some 7
   \<and> (filename \<noteq> [] \<and> CHR ''/'' \<notin> set chunkIndex
      \<longrightarrow> resolve w (chunkPathOf w filename chunkIndex)
            = resolve w (uploadDirOf w filename) @ [''chunk-'' @ chunkIndex])
   \<and> (i1 \<noteq> i2 \<and> CHR ''/'' \<notin> set i1 \<and> CHR ''/'' \<notin> set i2
       \<and> status (snd (POST w (chunk_upload filename i1 t1 b1))) = 200
       \<and> status (snd (POST (fst (POST w (chunk_upload filename i1 t1 b1)))
                            (chunk_upload filename i2 t2 b2))) = 200
      \<longrightarrow> resolve w (chunkPathOf w filename i1) \<noteq> resolve w (chunkPathOf w filename i2)
          \<and> nodes (fst (POST (fst (POST w (chunk_upload filename i1 t1 b1)))
                              (chunk_upload filename i2 t2 b2)))
                (resolve w (chunkPathOf w filename i1)) = Some (File b1)
          \<and> nodes (fst (POST (fst (POST w (chunk_upload filename i1 t1 b1)))
                              (chunk_upload filename i2 t2 b2)))
                (resolve w (chunkPathOf w filename i2)) = Some (File b2))"
proof (intro conjI impI)
  assume a: "filename \<noteq> [] \<and> totalChunks \<noteq> [] \<and> parseInt chunkIndex \<noteq> None"
  then have "chunkIndex \<noteq> []"
    by auto
  with a show "status (snd (POST w (chunk_upload filename chunkIndex totalChunks payload))) \<noteq> 400"
    using POST_chunk_upload_fst_status [of filename chunkIndex totalChunks w payload] by simp
next
  show "parseInt ''-1'' = Some (- 1)" "parseInt ''7abc'' = Some 7"
    "parseInt ''7'' = Some 7" "parseInt ''07'' = Some 7"
    by (simp_all add: run_defs)
next
  assume "filename \<noteq> [] \<and> CHR ''/'' \<notin> set chunkIndex"
  then show "resolve w (chunkPathOf w filename chunkIndex)
            = resolve w (uploadDirOf w filename) @ [''chunk-'' @ chunkIndex]"
    by (simp add: chunk_key_plain)
next
  assume a: "i1 \<noteq> i2 \<and> CHR ''/'' \<notin> set i1 \<and> CHR ''/'' \<notin> set i2
       \<and> status (snd (POST w (chunk_upload filename i1 t1 b1))) = 200
       \<and> status (snd (POST (fst (POST w (chunk_upload filename i1 t1 b1)))
                            (chunk_upload filename i2 t2 b2))) = 200"
  then have f: "filename \<noteq> []"
    using POST_accepted [of w filename i1 t1 b1] by simp
  have k1: "resolve w (chunkPathOf w filename i1) = abs_segments (chunkPathOf w filename i1)"
    and k2: "resolve w (chunkPathOf w filename i2) = abs_segments (chunkPathOf w filename i2)"
    using f by (simp_all add: chunk_key_abs)
  have ne: "abs_segments (chunkPathOf w filename i1) \<noteq> abs_segments (chunkPathOf w filename i2)"
    using a f by (simp add: abs_segments_chunkPathOf_plain)
  from a have a1: "status (snd (POST w (chunk_upload filename i1 t1 b1))) = 200"
    and a2: "status (snd (POST (fst (POST w (chunk_upload filename i1 t1 b1)))
                            (chunk_upload filename i2 t2 b2))) = 200"
    by simp_all
  note two = POST_two_keys [OF a1 a2 ne]
  show "resolve w (chunkPathOf w filename i1) \<noteq> resolve w (chunkPathOf w filename i2)"
    using ne by (simp add: k1 k2)
  show "nodes (fst (POST (fst (POST w (chunk_upload filename i1 t1 b1)))
                              (chunk_upload filename i2 t2 b2)))
                (resolve w (chunkPathOf w filename i1)) = Some (File b1)"
    using two by (simp add: k1)
  show "nodes (fst (POST (fst (POST w (chunk_upload filename i1 t1 b1)))
                              (chunk_upload filename i2 t2 b2)))
                (resolve w (chunkPathOf w filename i2)) = Some (File b2)"
    using two by (simp add: k2)
qed

theorem raw_index_string_names_chunk_file_witness:
  "status (snd (POST fresh_world (chunk_upload ''a.bin'' ''-1'' ''8'' [1]))) \<noteq> 400
   \<and> resolve fresh_world (chunkPathOf fresh_world ''a.bin'' ''07'')
       = [''srv'', ''public'', ''uploads'', ''chunks'', ''a.bin'', ''chunk-07'']
   \<and> status (snd (POST fresh_world (chunk_upload ''a.bin'' ''7'' ''8'' [1]))) = 200
   \<and> status (snd (POST (fst (POST fresh_world (chunk_upload ''a.bin'' ''7'' ''8'' [1])))
                       (chunk_upload ''a.bin'' ''07'' ''8'' [2]))) = 200
   \<and> nodes (fst (POST (fst (POST fresh_world (chunk_upload ''a.bin'' ''7'' ''8'' [1])))
                     (chunk_upload ''a.bin'' ''07'' ''8'' [2])))
         [''srv'', ''public'', ''uploads'', ''chunks'', ''a.bin'', ''chunk-7''] = Some (File [1])
   \<and> nodes (fst (POST (fst (POST fresh_world (chunk_upload ''a.bin'' ''7'' ''8'' [1])))
                     (chunk_upload ''a.bin'' ''07'' ''8'' [2])))
         [''srv'', ''public'', ''uploads'', ''chunks'', ''a.bin'', ''chunk-07''] = Some (File [2])"
proof -
  have h1: "''a.bin'' \<noteq> [] \<and> ''8'' \<noteq> [] \<and> parseInt ''-1'' \<noteq> None"
    by (simp add: run_defs)
  have h2: "''a.bin'' \<noteq> [] \<and> CHR ''/'' \<notin> set ''07''"
    by simp
  have a1: "status (snd (POST fresh_world (chunk_upload ''a.bin'' ''7'' ''8'' [1]))) = 200"
    by (simp add: POST_def run_defs)
  have a2: "status (snd (POST (fst (POST fresh_world (chunk_upload ''a.bin'' ''7'' ''8'' [1])))
                       (chunk_upload ''a.bin'' ''07'' ''8'' [2]))) = 200"
    unfolding fresh_upload_world_7 by (simp add: POST_def run_defs)
  have h3: "''7'' \<noteq> ''07'' \<and> CHR ''/'' \<notin> set ''7'' \<and> CHR ''/'' \<notin> set ''07''"
    by simp
  have up: "resolve fresh_world (uploadDirOf fresh_world ''a.bin'')
      = [''srv'', ''public'', ''uploads'', ''chunks'', ''a.bin'']"
    by (simp add: run_defs)
  have k7: "resolve fresh_world (chunkPathOf fresh_world ''a.bin'' ''7'')
      = [''srv'', ''public'', ''uploads'', ''chunks'', ''a.bin'', ''chunk-7'']"
    by (simp add: run_defs)
  note inst1 = raw_index_string_names_chunk_file
      [of "''a.bin''" "''8''" "''-1''" fresh_world "[1]" "''7''" "''07''" "''8''" "[1]" "''8''" "[2]"]
  note inst2 = raw_index_string_names_chunk_file
      [of "''a.bin''" "''8''" "''07''" fresh_world "[1]" "''7''" "''07''" "''8''" "[1]" "''8''" "[2]"]
  have c1: "status (snd (POST fresh_world (chunk_upload ''a.bin'' ''-1'' ''8'' [1]))) \<noteq> 400"
    using inst1 [THEN conjunct1] h1 by blast
  have c2: "resolve fresh_world (chunkPathOf fresh_world ''a.bin'' ''07'')
       = [''srv'', ''public'', ''uploads'', ''chunks'', ''a.bin'', ''chunk-07'']"
    using inst2 [THEN conjunct2, THEN conjunct2, THEN conjunct2, THEN conjunct2,
                 THEN conjunct2, THEN conjunct1] h2 up by simp
  have c3: "nodes (fst (POST (fst (POST fresh_world (chunk_upload ''a.bin'' ''7'' ''8'' [1])))
                     (chunk_upload ''a.bin'' ''07'' ''8'' [2])))
         (resolve fresh_world (chunkPathOf fresh_world ''a.bin'' ''7'')) = Some (File [1])
     \<and> nodes (fst (POST (fst (POST fresh_world (chunk_upload ''a.bin'' ''7'' ''8'' [1])))
                     (chunk_upload ''a.bin'' ''07'' ''8'' [2])))
         (resolve fresh_world (chunkPathOf fresh_world ''a.bin'' ''07'')) = Some (File [2])"
    using inst2 [THEN conjunct2, THEN conjunct2, THEN conjunct2, THEN conjunct2,
                 THEN conjunct2, THEN conjunct2] h3 a1 a2 by blast
  from c1 c2 c3 a1 a2 show ?thesis
    unfolding k7 c2 by blast
qed

subsection \<open>The file name in the storage path; the names of the chunk files\<close>

text \<open>
  Claim C9. The file name is joined into the storage path as it is: the upload
  directory is the chunks root followed by the segments of the file name, with each
  \<^verbatim>\<open>..\<close> segment removing the segment before it. For the file name \<^verbatim>\<open>../evil\<close> the
  chunk path is \<^verbatim>\<open>public/uploads/evil/chunk-0\<close> under the working directory, which
  does not lie under the chunks root \<^verbatim>\<open>public/uploads/chunks\<close>, and an accepted request
  writes its bytes there.
\<close>

theorem filename_can_leave_chunks_root:
  "(filename \<noteq> []
      \<longrightarrow> resolve w (uploadDirOf w filename)
            = rev (normalizeString False (rev (resolve w (chunksRoot w)))
                     (split_on (CHR ''/'') filename)))
   \<and> \<not> prefix (resolve w (chunksRoot w)) (resolve w (chunkPathOf w ''../evil'' ''0''))
   \<and> (status (snd (POST w (chunk_upload ''../evil'' ''0'' totalChunks payload))) = 200
      \<longrightarrow> nodes (fst (POST w (chunk_upload ''../evil'' ''0'' totalChunks payload)))
              (resolve w (chunkPathOf w ''../evil'' ''0'')) = Some (File payload))"
proof (intro conjI impI)
  assume "filename \<noteq> []"
  then show "resolve w (uploadDirOf w filename)
            = rev (normalizeString False (rev (resolve w (chunksRoot w)))
                     (split_on (CHR ''/'') filename))"
    by (rule upload_dir_from_root)
next
  have "resolve w (chunksRoot w)
      = abs_segments (process_cwd w) @ [''public'', ''uploads'', ''chunks'']"
    using chunksRoot_absolute [of w] by (simp add: resolve_absolute abs_segments_chunksRoot)
  then show "\<not> prefix (resolve w (chunksRoot w)) (resolve w (chunkPathOf w ''../evil'' ''0''))"
    by (simp add: evil_chunk_path)
next
  assume "status (snd (POST w (chunk_upload ''../evil'' ''0'' totalChunks payload))) = 200"
  from POST_accepted_written [OF this]
  show "nodes (fst (POST w (chunk_upload ''../evil'' ''0'' totalChunks payload)))
              (resolve w (chunkPathOf w ''../evil'' ''0'')) = Some (File payload)"
    by (simp add: chunk_key_abs)
qed

theorem filename_can_leave_chunks_root_witness:
  "resolve fresh_world (uploadDirOf fresh_world ''../evil'') = [''srv'', ''public'', ''uploads'', ''evil'']
   \<and> resolve fresh_world (chunksRoot fresh_world) = [''srv'', ''public'', ''uploads'', ''chunks'']
   \<and> status (snd (POST fresh_world (chunk_upload ''../evil'' ''0'' ''1'' [1, 2]))) = 200
   \<and> nodes (fst (POST fresh_world (chunk_upload ''../evil'' ''0'' ''1'' [1, 2])))
         [''srv'', ''public'', ''uploads'', ''evil'', ''chunk-0''] = Some (File [1, 2])"
proof -
  have f: "''../evil'' \<noteq> []"
    by simp
  have root: "resolve fresh_world (chunksRoot fresh_world) = [''srv'', ''public'', ''uploads'', ''chunks'']"
    by (simp add: chunksRoot_def run_defs)
  have acc: "status (snd (POST fresh_world (chunk_upload ''../evil'' ''0'' ''1'' [1, 2]))) = 200"
    by (simp add: POST_def run_defs)
  have key: "resolve fresh_world (chunkPathOf fresh_world ''../evil'' ''0'')
      = [''srv'', ''public'', ''uploads'', ''evil'', ''chunk-0'']"
    by (simp add: run_defs)
  note inst = filename_can_leave_chunks_root [of "''../evil''" fresh_world "''1''" "[1, 2]"]
  have 1: "resolve fresh_world (uploadDirOf fresh_world ''../evil'')
      = [''srv'', ''public'', ''uploads'', ''evil'']"
    using inst [THEN conjunct1] f unfolding root by simp
  have 2: "nodes (fst (POST fresh_world (chunk_upload ''../evil'' ''0'' ''1'' [1, 2])))
         [''srv'', ''public'', ''uploads'', ''evil'', ''chunk-0''] = Some (File [1, 2])"
    using inst [THEN conjunct2, THEN conjunct2] acc unfolding key by simp
  from 1 root acc 2 show ?thesis
    by blast
qed

text \<open>
  Claim C4 (as stated, refuted). The file name of chunk 2 does not sort before the
  file name of chunk 10: \<^verbatim>\<open>chunk-10\<close> sorts before \<^verbatim>\<open>chunk-2\<close>.
\<close>

theorem chunk_names_do_not_sort_by_index:
  "(2 :: nat) < 10
   \<and> resolve fresh_world (chunkPathOf fresh_world ''a.bin'' (dec 2))
       = [''srv'', ''public'', ''uploads'', ''chunks'', ''a.bin'', ''chunk-2'']
   \<and> resolve fresh_world (chunkPathOf fresh_world ''a.bin'' (dec 10))
       = [''srv'', ''public'', ''uploads'', ''chunks'', ''a.bin'', ''chunk-10'']
   \<and> \<not> sorts_before ''chunk-2'' ''chunk-10''
   \<and> sorts_before ''chunk-10'' ''chunk-2''"
proof -
  have d: "dec 2 = ''2''" "dec 10 = ''10''"
    by code_simp+
  show ?thesis
    unfolding d by (simp add: run_defs)
qed

text \<open>
  Claim C4 (amended). Chunks are stored in one directory per file name, the chunk
  with index \<open>i\<close> in the file \<^verbatim>\<open>chunk-\<close> followed by the decimal numeral of \<open>i\<close>, so that
  different indices have different files. For \<open>i < j\<close> the name of chunk \<open>i\<close> is shorter
  than the name of chunk \<open>j\<close>, or the two are equally long and the name of chunk \<open>i\<close>
  sorts first: the names sort by index among indices with the same number of digits,
  and in general only when compared by length first.
\<close>

theorem chunk_names_sort_by_length_then_text:
  "(filename \<noteq> []
      \<longrightarrow> resolve w (chunkPathOf w filename (dec i))
            = resolve w (uploadDirOf w filename) @ [''chunk-'' @ dec i])
   \<and> (i \<noteq> j \<longrightarrow> ''chunk-'' @ dec i \<noteq> ''chunk-'' @ dec j)
   \<and> (i < j
      \<longrightarrow> length (''chunk-'' @ dec i) < length (''chunk-'' @ dec j)
          \<or> (length (''chunk-'' @ dec i) = length (''chunk-'' @ dec j)
              \<and> sorts_before (''chunk-'' @ dec i) (''chunk-'' @ dec j)))"
proof (intro conjI impI)
  assume "filename \<noteq> []"
  then show "resolve w (chunkPathOf w filename (dec i))
            = resolve w (uploadDirOf w filename) @ [''chunk-'' @ dec i]"
    by (simp add: chunk_key_plain dec_no_sep)
next
  assume "i \<noteq> j"
  then show "''chunk-'' @ dec i \<noteq> ''chunk-'' @ dec j"
    using dec_inj [of i j] by auto
next
  assume lt: "i < j"
  then have "length (dec i) \<le> length (dec j)"
    by (simp add: length_dec_mono)
  then show "length (''chunk-'' @ dec i) < length (''chunk-'' @ dec j)
          \<or> (length (''chunk-'' @ dec i) = length (''chunk-'' @ dec j)
              \<and> sorts_before (''chunk-'' @ dec i) (''chunk-'' @ dec j))"
    using sorts_before_dec [OF lt] sorts_before_same_prefix [of "''chunk-''" "dec i" "dec j"]
    by (cases "length (dec i) = length (dec j)") simp_all
qed

theorem chunk_names_sort_by_length_then_text_witness:
  "resolve fresh_world (chunkPathOf fresh_world ''a.bin'' (dec 12))
     = [''srv'', ''public'', ''uploads'', ''chunks'', ''a.bin'', ''chunk-12'']
   \<and> ''chunk-12'' \<noteq> ''chunk-17''
   \<and> sorts_before ''chunk-12'' ''chunk-17''
   \<and> length ''chunk-2'' < length ''chunk-10''"
proof -
  have d: "dec 2 = ''2''" "dec 10 = ''10''" "dec 12 = ''12''" "dec 17 = ''17''"
    by code_simp+
  have f: "''a.bin'' \<noteq> []" and ne: "(12 :: nat) \<noteq> 17" and lt: "(12 :: nat) < 17"
    and lt2: "(2 :: nat) < 10"
    by simp_all
  have up: "resolve fresh_world (uploadDirOf fresh_world ''a.bin'')
      = [''srv'', ''public'', ''uploads'', ''chunks'', ''a.bin'']"
    by (simp add: run_defs)
  note inst = chunk_names_sort_by_length_then_text [of "''a.bin''" fresh_world 12 17]
  have 1: "resolve fresh_world (chunkPathOf fresh_world ''a.bin'' (dec 12))
     = [''srv'', ''public'', ''uploads'', ''chunks'', ''a.bin'', ''chunk-12'']"
    using inst [THEN conjunct1] f unfolding up d by simp
  have 2: "''chunk-12'' \<noteq> ''chunk-17''"
    using inst [THEN conjunct2, THEN conjunct1] ne unfolding d by simp
  have 3: "sorts_before ''chunk-12'' ''chunk-17''"
    using inst [THEN conjunct2, THEN conjunct2] lt unfolding d by simp
  have 4: "length ''chunk-2'' < length ''chunk-10''"
    using chunk_names_sort_by_length_then_text [of "''a.bin''" fresh_world 2 10,
        THEN conjunct2, THEN conjunct2] lt2
    unfolding d by simp
  from 1 2 3 4 show ?thesis
    by blast
qed

subsection \<open>Assembly of an upload\<close>

text \<open>
  Claim C1. Take any sequence of chunk uploads of one file, in any order of arrival,
  each carrying a decimal index and all accepted by the handler, such that every index
  below \<open>totalChunks\<close> occurs. Then assembly over the resulting disk succeeds, and the
  artifact is the concatenation, for the indices \<open>0, \<dots>, totalChunks - 1\<close> in this order,
  of the payload stored for each index: each index contributes once, none is skipped,
  and the order of arrival plays no role. (For an index that was sent more than once
  the stored payload is the one sent last.)
\<close>

theorem assembly_concatenates_chunks_in_index_order:
  assumes "\<forall>r \<in> set (snd (POST_all w (upload_requests filename totalChunks ups))). status r = 200"
    and "{0..<totalChunks} \<subseteq> fst ` set ups"
  shows "assemble (fst (POST_all w (upload_requests filename totalChunks ups))) filename totalChunks
           = Some (concat (map (stored_payload ups) [0..<totalChunks]))"
proof (cases "ups = []")
  case True
  with assms(2) have "totalChunks = 0"
    by auto
  then show ?thesis
    by (simp add: assemble_def)
next
  case False
  define w' where "w' = fst (POST_all w (upload_requests filename totalChunks ups))"
  note st = uploads_stored [OF assms(1), folded w'_def]
  obtain a b rest where ups: "ups = (a, b) # rest"
    using False by (cases ups) auto
  have "status (snd (POST w (chunk_upload filename (dec a) (dec totalChunks) b))) = 200"
    using assms(1) by (simp add: ups upload_requests_def case_prod_beta)
  then have f: "filename \<noteq> []"
    using POST_accepted [of w filename "dec a" "dec totalChunks" b] by simp
  have "ChunkStore_read w' filename i = Some (stored_payload ups i)"
    if "i \<in> set [0..<totalChunks]" for i
  proof -
    from that assms(2) have "i \<in> fst ` set ups"
      by auto
    with st have "nodes w' (abs_segments (chunkPathOf w filename (dec i)))
        = Some (File (stored_payload ups i))"
      by blast
    with st show ?thesis
      by (intro ChunkStore_read_stored [OF f]) simp_all
  qed
  then have "read_in_order w' filename [0..<totalChunks]
      = Some (concat (map (stored_payload ups) [0..<totalChunks]))"
    by (rule read_in_order_all)
  then show ?thesis
    by (simp add: assemble_def w'_def)
qed

theorem assembly_concatenates_chunks_in_index_order_witness:
  "snd (POST_all fresh_world (upload_requests ''a.bin'' 3 [(2, [30]), (0, [10]), (1, [20])]))
     = [NextResponseJson True ''Chunk 2 of 3 uploaded successfully'',
        NextResponseJson True ''Chunk 0 of 3 uploaded successfully'',
        NextResponseJson True ''Chunk 1 of 3 uploaded successfully'']
   \<and> assemble (fst (POST_all fresh_world
                     (upload_requests ''a.bin'' 3 [(2, [30]), (0, [10]), (1, [20])])))
        ''a.bin'' 3
       = Some [10, 20, 30]"
proof -
  let ?ups = "[(2, [30]), (0, [10]), (1, [20])] :: (nat \<times> bytes) list"
  have resp: "snd (POST_all fresh_world (upload_requests ''a.bin'' 3 ?ups))
     = [NextResponseJson True ''Chunk 2 of 3 uploaded successfully'',
        NextResponseJson True ''Chunk 0 of 3 uploaded successfully'',
        NextResponseJson True ''Chunk 1 of 3 uploaded successfully'']"
    unfolding three_upload_requests by (rule three_chunks_out_of_order)
  have accepted: "\<forall>r \<in> set (snd (POST_all fresh_world (upload_requests ''a.bin'' 3 ?ups))).
      status r = 200"
    unfolding resp by simp
  have covered: "{0..<3} \<subseteq> fst ` set ?ups"
    by auto
  have artifact: "concat (map (stored_payload ?ups) [0..<3]) = [10, 20, 30]"
    by code_simp
  from assembly_concatenates_chunks_in_index_order [OF accepted covered] resp show ?thesis
    unfolding artifact by simp
qed


end
